theory Spec2Isabelle
  imports Main
begin

section \<open>smallsh: a small shell with cd, status and exit built in\<close>

text \<open>
  The repository holds two copies of the shell: \<^verbatim>\<open>src/smallsh.c\<close> and the commented copy
  \<^verbatim>\<open>src/unnamed/part_000\<close>.  Their functions coincide except for three places inside
  \<^verbatim>\<open>handle_fork_exec\<close>; the model below is written once and takes the copy as a parameter
  at exactly those places.

  A \<^typ>\<open>string\<close> stands for the contents of a C string up to its terminating NUL.
\<close>

datatype version = Smallsh | Part000

subsection \<open>Tokens: the calls of strtok with the delimiters space and newline\<close>

definition delim :: "char \<Rightarrow> bool" where
  "delim c \<longleftrightarrow> c = CHR '' '' \<or> c = CHR ''\<newline>''"

text \<open>
  \<^verbatim>\<open>strtok(input, " \n")\<close> skips the delimiters in front, returns the run of other characters
  that follows (NULL when nothing is left) and resumes behind it at the next call.  The
  list below holds the results of the successive calls, in order, up to the first NULL.
\<close>

function tokenize :: "string \<Rightarrow> string list" where
  "tokenize s =
     (let s' = dropWhile delim s
      in if s' = [] then []
         else takeWhile (\<lambda>c. \<not> delim c) s' # tokenize (dropWhile (\<lambda>c. \<not> delim c) s'))"
  by pat_completeness auto
termination
proof (relation "measure length")
  show "wf (measure length)" by simp
next
  fix s s' :: string
  assume s': "s' = dropWhile delim s" and ne: "s' \<noteq> []"
  from ne obtain c cs where c: "s' = c # cs" by (cases s') auto
  have "\<not> delim (hd (dropWhile delim s))" using s' ne by (simp add: hd_dropWhile)
  moreover have "hd (dropWhile delim s) = c" using s' c by (metis list.sel(1))
  ultimately have "\<not> delim c" by simp
  with c have "length (dropWhile (\<lambda>c. \<not> delim c) s') \<le> length cs"
    by (simp add: length_dropWhile_le)
  also have "length cs < length s'" using c by simp
  also have "length s' \<le> length s" using s' by (simp add: length_dropWhile_le)
  finally show "(dropWhile (\<lambda>c. \<not> delim c) s', s) \<in> measure length" by simp
qed

declare tokenize.simps [simp del]

subsection \<open>The tokenizing loop of run_shell\<close>

text \<open>
  The C code copies tokens with \<^verbatim>\<open>strcpy\<close> into buffers of fixed size and never tests a
  token for NULL before copying it.  Both are undefined behaviour in C when they go wrong;
  the model returns a fault there.
\<close>

datatype fault =
    NullPointer       \<comment> \<open>\<^verbatim>\<open>strcpy(dst, NULL)\<close>: no token follows a redirection operator\<close>
  | BufferOverflow    \<comment> \<open>a write behind the end of a buffer or of the array \<^verbatim>\<open>commands\<close>\<close>
  | Uninitialised     \<comment> \<open>the strings of \<^verbatim>\<open>commands\<close> behind index 0 are read though never written\<close>

text \<open>
  What the loop leaves behind: the \<open>i\<close> strings copied to \<^verbatim>\<open>commands[0..i-1]\<close>, the flag
  \<^verbatim>\<open>fg\<close> and the two file names (the empty string when the operator did not occur).
\<close>

record parsed =
  commands :: "string list"
  fg :: bool
  input_filename :: string
  output_filename :: string

definition parse_init :: parsed where
  "parse_init = \<lparr>commands = [], fg = True, input_filename = [], output_filename = []\<rparr>"

text \<open>
  \<^verbatim>\<open>commands\<close> has 513 strings of 513 bytes; the file name buffers have 100 bytes.
\<close>

fun parse_loop :: "string list \<Rightarrow> parsed \<Rightarrow> fault + parsed" where
  "parse_loop [] p = Inr p"
| "parse_loop (tok # rest) p =
     (if tok = ''>'' then
        (case rest of
           [] \<Rightarrow> Inl NullPointer
         | f # rest' \<Rightarrow>
             if 100 \<le> length f then Inl BufferOverflow
             else parse_loop rest' (p\<lparr>output_filename := f\<rparr>))
      else if tok = ''<'' then
        (case rest of
           [] \<Rightarrow> Inl NullPointer
         | f # rest' \<Rightarrow>
             if 100 \<le> length f then Inl BufferOverflow
             else parse_loop rest' (p\<lparr>input_filename := f\<rparr>))
      else if tok = ''&'' then Inr (p\<lparr>fg := False\<rparr>)
      else if 513 \<le> length (commands p) \<or> 513 \<le> length tok then Inl BufferOverflow
      else parse_loop rest (p\<lparr>commands := commands p @ [tok]\<rparr>))"

text \<open>
  After the loop, \<^verbatim>\<open>if (i != 0) commands[i] = NULL\<close>: with 513 tokens copied the store
  goes to \<^verbatim>\<open>commands[513]\<close>, one behind the array.
\<close>

definition parse_line :: "string \<Rightarrow> fault + parsed" where
  "parse_line input =
     (case parse_loop (tokenize input) parse_init of
        Inl f \<Rightarrow> Inl f
      | Inr p \<Rightarrow> if length (commands p) = 513 then Inl BufferOverflow else Inr p)"

subsection \<open>Wait statuses and their rendering\<close>

text \<open>
  \<^verbatim>\<open>WIFEXITED\<close>, \<^verbatim>\<open>WEXITSTATUS\<close>, \<^verbatim>\<open>WTERMSIG\<close>, \<^verbatim>\<open>WIFSIGNALED\<close> and \<^verbatim>\<open>WCOREDUMP\<close> come from
  \<^verbatim>\<open><sys/wait.h>\<close>, which is not part of the repository.  They are written here as glibc
  defines them on Linux: the low seven bits of a status hold the terminating signal (0 after
  a normal exit), bit 7 is set when a core was dumped, the next eight bits hold the exit code.
\<close>

definition WTERMSIG :: "int \<Rightarrow> int" where
  "WTERMSIG st = and st 0x7f"

definition WIFEXITED :: "int \<Rightarrow> bool" where
  "WIFEXITED st \<longleftrightarrow> WTERMSIG st = 0"

definition WEXITSTATUS :: "int \<Rightarrow> int" where
  "WEXITSTATUS st = drop_bit 8 (and st 0xff00)"

definition WIFSIGNALED :: "int \<Rightarrow> bool" where
  "WIFSIGNALED st \<longleftrightarrow> 0 < WTERMSIG st \<and> WTERMSIG st < 0x7f"

definition WCOREDUMP :: "int \<Rightarrow> bool" where
  "WCOREDUMP st \<longleftrightarrow> and st 0x80 \<noteq> 0"

text \<open>The conversion \<^verbatim>\<open>%d\<close> of \<^verbatim>\<open>printf\<close>.\<close>

fun show_nat :: "nat \<Rightarrow> string" where
  "show_nat n =
     (if n < 10 then [''0123456789'' ! n]
      else show_nat (n div 10) @ [''0123456789'' ! (n mod 10)])"

declare show_nat.simps [simp del]

definition show_int :: "int \<Rightarrow> string" where
  "show_int i = (if i < 0 then CHR ''-'' # show_nat (nat (- i)) else show_nat (nat i))"

text \<open>\<^verbatim>\<open>get_status\<close>: the texts it writes to standard output, one per \<^verbatim>\<open>printf\<close>.\<close>

definition get_status :: "int \<Rightarrow> string list" where
  "get_status st =
     (if WIFEXITED st then
        [''The process exited normally\<newline>'',
         ''The exit status was '' @ show_int (WEXITSTATUS st) @ ''\<newline>'']
      else [''The process was terminated by a signal '' @ show_int st @ ''\<newline>''])"

subsection \<open>The shell, its children and what can be observed\<close>

text \<open>
  A child of the shell is running, or has ended with a wait status and waits to be collected.
\<close>

datatype proc = Running | Zombie int

datatype event =
    Stdout string          \<comment> \<open>one \<^verbatim>\<open>printf\<close> to standard output\<close>
  | Stderr string          \<comment> \<open>one \<^verbatim>\<open>fprintf(stderr, ...)\<close>\<close>
  | Forked int             \<comment> \<open>\<^verbatim>\<open>fork\<close> made a child with this pid\<close>
  | Waited int int         \<comment> \<open>\<^verbatim>\<open>waitpid(pid, status, 0)\<close> returned: pid and the status stored\<close>
  | Reaped int int         \<comment> \<open>\<^verbatim>\<open>waitpid(-1, status, WNOHANG)\<close> collected pid with this status\<close>
  | Chdir "string option"  \<comment> \<open>\<^verbatim>\<open>chdir\<close> to a path, or to \<^verbatim>\<open>getenv("HOME")\<close>\<close>

text \<open>
  The state threaded through the loop of \<^verbatim>\<open>run_shell\<close>: the variable \<^verbatim>\<open>status\<close>, the
  children the kernel holds for the shell, the string found in \<^verbatim>\<open>commands[0]\<close> before a
  line is tokenized, and the calls made so far.
\<close>

record state =
  status :: int
  children :: "(int \<times> proc) list"
  commands0 :: string
  trace :: "event list"

text \<open>
  What the surroundings answer during one pass of the loop: the value \<^verbatim>\<open>fork\<close> returns in
  the process that is followed, the status with which the foreground child ends (\<open>None\<close>
  when it never ends), the children that end before the shell polls, and, for the child,
  whether \<^verbatim>\<open>open\<close>, \<^verbatim>\<open>dup2\<close> and \<^verbatim>\<open>execvp\<close> succeed.
\<close>

record env =
  fork_ret :: int
  fg_ends :: "int option"
  finished :: "(int \<times> int) list"
  open_rd :: "string \<Rightarrow> bool"
  open_wr :: "string \<Rightarrow> bool"
  dup2_ok :: "nat \<Rightarrow> bool"
  exec_ok :: "string \<Rightarrow> bool"

definition add_events :: "event list \<Rightarrow> state \<Rightarrow> state" where
  "add_events es s = s\<lparr>trace := trace s @ es\<rparr>"

subsubsection \<open>The kernel's side of waitpid\<close>

fun zombie :: "(int \<times> proc) list \<Rightarrow> (int \<times> int) option" where
  "zombie [] = None"
| "zombie ((p, Zombie w) # t) = Some (p, w)"
| "zombie ((p, Running) # t) = zombie t"

text \<open>
  \<^verbatim>\<open>waitpid(-1, status, WNOHANG)\<close>: the pid returned, the contents of \<^verbatim>\<open>*status\<close>
  afterwards and the children left.  Which ended child comes first is the kernel's choice;
  the model takes them in the order of the table.
\<close>

definition waitpid_nohang :: "int \<Rightarrow> (int \<times> proc) list \<Rightarrow> int \<times> int \<times> (int \<times> proc) list" where
  "waitpid_nohang st t =
     (case zombie t of
        Some (p, w) \<Rightarrow> (p, w, remove1 (p, Zombie w) t)
      | None \<Rightarrow> (if t = [] then - 1 else 0, st, t))"

text \<open>A running child ends with a status and becomes collectable.\<close>

definition ends :: "int \<times> int \<Rightarrow> (int \<times> proc) list \<Rightarrow> (int \<times> proc) list" where
  "ends pw t = map (\<lambda>(p, x). if p = fst pw \<and> x = Running then (p, Zombie (snd pw)) else (p, x)) t"

definition elapse :: "env \<Rightarrow> state \<Rightarrow> state" where
  "elapse e s = s\<lparr>children := fold ends (finished e) (children s)\<rparr>"

subsubsection \<open>wait_for_children\<close>

text \<open>What \<^verbatim>\<open>wait_for_children\<close> does for one child collected.\<close>

definition report :: "int \<Rightarrow> int \<Rightarrow> event list" where
  "report pid st =
     Reaped pid st # Stdout (''Background process '' @ show_int pid @ '' closed\<newline>'')
       # map Stdout (get_status st)"

function wait_for_children :: "state \<Rightarrow> state" where
  "wait_for_children s =
     (case waitpid_nohang (status s) (children s) of
        (pid, st, t) \<Rightarrow>
          if 0 < pid then
            wait_for_children
              (add_events (report pid st) (s\<lparr>status := st, children := t\<rparr>))
          else s)"
  by pat_completeness auto
termination
proof (relation "measure (\<lambda>s. length (children s))", goal_cases)
  case 1
  show ?case by simp
next
  case (2 s pid y st t)
  have mem: "zombie u = Some (p, w) \<Longrightarrow> (p, Zombie w) \<in> set u" for u p w
    by (induction u rule: zombie.induct) auto
  from 2 obtain p w where z: "zombie (children s) = Some (p, w)"
    and t: "t = remove1 (p, Zombie w) (children s)"
    by (auto simp: waitpid_nohang_def split: option.splits if_splits)
  from mem [OF z] have "0 < length (children s)"
    by (rule length_pos_if_in_set)
  with mem [OF z] have "length t < length (children s)"
    unfolding t by (simp add: length_remove1)
  then show ?case by (simp add: add_events_def)
qed

declare wait_for_children.simps [simp del]

subsubsection \<open>handle_fork_exec: the child\<close>

datatype handler = SIG_DFL | SIG_IGN

text \<open>
  What the program started by \<^verbatim>\<open>execvp\<close> finds: its arguments, the file on descriptor 0
  (\<open>None\<close>: the shell's own input), the file on descriptor 1 with the mode it was created
  with (\<open>None\<close>: the shell's own output), and the disposition of SIGINT.
\<close>

record image =
  argv :: "string list"
  stdin_from :: "string option"
  stdout_to :: "(string \<times> nat) option"
  sigint :: handler

datatype child_result =
    ChildExit int string     \<comment> \<open>\<^verbatim>\<open>exit(n)\<close> after one line on standard error\<close>
  | Exec image
  | ChildFault fault

text \<open>The mode given to \<^verbatim>\<open>open\<close> with \<^verbatim>\<open>O_CREAT\<close>: octal 0744 in one copy, 0644 in the other.\<close>

definition creat_mode :: "version \<Rightarrow> nat" where
  "creat_mode v = (case v of Smallsh \<Rightarrow> 7 * 64 + 4 * 8 + 4 | Part000 \<Rightarrow> 6 * 64 + 4 * 8 + 4)"

text \<open>
  The branch \<^verbatim>\<open>pid == 0\<close>, in three parts: descriptor 0, descriptor 1, \<^verbatim>\<open>execvp\<close>.  A part
  that fails writes one line to standard error and ends the child with \<^verbatim>\<open>exit(1)\<close>.
  The shell ignores SIGINT, and so does the child unless it is in the foreground.  With no
  token copied, \<^verbatim>\<open>commands\<close> holds no NULL and \<^verbatim>\<open>execvp\<close> runs over strings that were never
  written.
\<close>

definition redirect_input :: "env \<Rightarrow> bool \<Rightarrow> string \<Rightarrow> string + string option" where
  "redirect_input e fg_flag in_name =
     (let to_open = (if fg_flag then (if in_name \<noteq> [] then Some in_name else None)
                     else Some ''/dev/null'')
      in case to_open of
           None \<Rightarrow> Inr None
         | Some f \<Rightarrow>
             if \<not> open_rd e f then Inl ''Error opening input file\<newline>''
             else if \<not> dup2_ok e 0 then Inl ''Error redirecting the input\<newline>''
             else Inr (Some f))"

definition redirect_output ::
  "version \<Rightarrow> env \<Rightarrow> string \<Rightarrow> string + (string \<times> nat) option" where
  "redirect_output v e out_name =
     (if out_name \<noteq> [] then
        if \<not> open_wr e out_name then Inl ''Error opening output file\<newline>''
        else if \<not> dup2_ok e 1 then Inl ''Error redirecting the output\<newline>''
        else Inr (Some (out_name, creat_mode v))
      else Inr None)"

definition child_branch ::
  "version \<Rightarrow> env \<Rightarrow> bool \<Rightarrow> string \<Rightarrow> string \<Rightarrow> string list \<Rightarrow> child_result" where
  "child_branch v e fg_flag out_name in_name cmds =
     (case redirect_input e fg_flag in_name of
        Inl msg \<Rightarrow> ChildExit 1 msg
      | Inr src \<Rightarrow>
          (case redirect_output v e out_name of
             Inl msg \<Rightarrow> ChildExit 1 msg
           | Inr dst \<Rightarrow>
               (case cmds of
                  [] \<Rightarrow> ChildFault Uninitialised
                | c # _ \<Rightarrow>
                    if exec_ok e c then
                      Exec \<lparr>argv = cmds, stdin_from = src, stdout_to = dst,
                            sigint = (if fg_flag then SIG_DFL else SIG_IGN)\<rparr>
                    else ChildExit 1
                           (''smallsh did not recognize the command: '' @ c @ ''\<newline>''))))"

subsubsection \<open>handle_fork_exec: the shell, and exit_shell\<close>

text \<open>
  How one pass of the loop ends for the process that is followed: with undefined behaviour,
  as the child, with \<^verbatim>\<open>exit\<close> of the shell (the argument of \<^verbatim>\<open>exit\<close> and the last state),
  inside a \<^verbatim>\<open>waitpid\<close> that never returns, or at the next pass.
\<close>

datatype result =
    Fault fault
  | InChild child_result
  | Exited int state
  | Blocked state
  | Next state

text \<open>
  \<^verbatim>\<open>waitpid(pid, status, 0)\<close>: returns at once for a child that has ended, returns when a
  running child ends, and fails (leaving \<^verbatim>\<open>*status\<close>) when there is no such child.
  \<open>None\<close>: the call never returns.
\<close>

definition waitpid_block :: "env \<Rightarrow> int \<Rightarrow> state \<Rightarrow> state option" where
  "waitpid_block e pid s =
     (case map_of (children s) pid of
        None \<Rightarrow> Some s
      | Some (Zombie w) \<Rightarrow>
          Some (add_events [Waited pid w]
                  (s\<lparr>status := w, children := remove1 (pid, Zombie w) (children s)\<rparr>))
      | Some Running \<Rightarrow>
          (case fg_ends e of
             None \<Rightarrow> None
           | Some w \<Rightarrow>
               Some (add_events [Waited pid w]
                       (s\<lparr>status := w, children := remove1 (pid, Running) (children s)\<rparr>))))"

text \<open>
  \<^verbatim>\<open>exit_shell\<close>: one round of \<^verbatim>\<open>wait_for_children\<close>, then \<^verbatim>\<open>exit(*status)\<close>.  The children
  named by the surroundings have ended by the time the shell polls.
\<close>

definition exit_shell :: "env \<Rightarrow> state \<Rightarrow> result" where
  "exit_shell e s = (let s' = wait_for_children (elapse e s) in Exited (status s') s')"

text \<open>What the parent of the shell sees of \<^verbatim>\<open>exit(n)\<close>: the low eight bits.\<close>

definition exit_code :: "int \<Rightarrow> int" where
  "exit_code n = and n 0xff"

definition bg_text :: "version \<Rightarrow> string" where
  "bg_text v = (case v of Smallsh \<Rightarrow> ''background process id number ''
                        | Part000 \<Rightarrow> ''Background process id number '')"

definition handle_fork_exec ::
  "version \<Rightarrow> env \<Rightarrow> bool \<Rightarrow> string \<Rightarrow> string \<Rightarrow> string list \<Rightarrow> state \<Rightarrow> result" where
  "handle_fork_exec v e fg_flag out_name in_name cmds s =
     (let pid = fork_ret e
      in if pid = 0 then InChild (child_branch v e fg_flag out_name in_name cmds)
         else if pid < 0 then
           exit_shell e (add_events [Stderr ''error in fork\<newline>''] s\<lparr>status := 1\<rparr>)
         else
           (let s1 = add_events [Forked pid] (s\<lparr>children := children s @ [(pid, Running)]\<rparr>)
            in if fg_flag then
                 (case waitpid_block e pid s1 of
                    None \<Rightarrow> Blocked s1
                  | Some s2 \<Rightarrow>
                      Next (case v of
                              Smallsh \<Rightarrow> s2
                            | Part000 \<Rightarrow> add_events (map Stdout (get_status (status s2))) s2))
               else Next (add_events [Stdout (bg_text v @ show_int pid @ ''\<newline>'')] s1)))"

subsubsection \<open>The built-in cd\<close>

text \<open>
  \<^verbatim>\<open>commands[1]\<close> is NULL after one token, the second token after more, and a string never
  written when no token was copied.
\<close>

definition change_directory :: "string list \<Rightarrow> state \<Rightarrow> result" where
  "change_directory cmds s =
     (case cmds of
        [] \<Rightarrow> Fault Uninitialised
      | [c] \<Rightarrow> Next (add_events [Chdir None] s)
      | c # d # _ \<Rightarrow> Next (add_events [Chdir (Some d)] s))"

subsubsection \<open>One pass of the loop of run_shell\<close>

text \<open>
  \<^verbatim>\<open>commands[0]\<close> holds the first token copied, or what it held before when none was.
\<close>

definition first_command :: "parsed \<Rightarrow> state \<Rightarrow> string" where
  "first_command p s = (case commands p of [] \<Rightarrow> commands0 s | c # _ \<Rightarrow> c)"

definition dispatch :: "version \<Rightarrow> env \<Rightarrow> parsed \<Rightarrow> state \<Rightarrow> result" where
  "dispatch v e p s =
     (let c0 = first_command p s
      in if c0 = [] \<or> c0 = ''\<newline>'' then Next s
         else if hd c0 = CHR ''#'' then Next s
         else if c0 = ''cd'' then change_directory (commands p) s
         else if c0 = ''status'' then Next (add_events (map Stdout (get_status (status s))) s)
         else if c0 = ''exit'' then exit_shell e s
         else handle_fork_exec v e (fg p) (output_filename p) (input_filename p) (commands p) s)"

text \<open>
  The prompt, the tokenizing loop, the dispatch, \<^verbatim>\<open>wait_for_children\<close>, and the reset of
  the buffers: \<^verbatim>\<open>reset_command_array\<close> clears \<^verbatim>\<open>commands[0]\<close> (and only that string).
  \<open>input\<close> is what \<^verbatim>\<open>fgets\<close> stored.
\<close>

definition finish_pass :: "env \<Rightarrow> result \<Rightarrow> result" where
  "finish_pass e r =
     (case r of
        Next s \<Rightarrow> Next ((wait_for_children (elapse e s))\<lparr>commands0 := []\<rparr>)
      | _ \<Rightarrow> r)"

definition shell_step :: "version \<Rightarrow> env \<Rightarrow> string \<Rightarrow> state \<Rightarrow> result" where
  "shell_step v e input s =
     (case parse_line input of
        Inl f \<Rightarrow> Fault f
      | Inr p \<Rightarrow> finish_pass e (dispatch v e p (add_events [Stdout '': ''] s)))"

text \<open>
  The loop over the lines read.  At the end of the input \<^verbatim>\<open>fgets\<close> returns NULL and
  \<^verbatim>\<open>prompt\<close> calls \<^verbatim>\<open>exit(0)\<close>.
\<close>

fun run_shell :: "version \<Rightarrow> (env \<times> string) list \<Rightarrow> state \<Rightarrow> result" where
  "run_shell v [] s = Exited 0 (add_events [Stdout '': ''] s)"
| "run_shell v ((e, input) # rest) s =
     (case shell_step v e input s of
        Next s' \<Rightarrow> run_shell v rest s'
      | r \<Rightarrow> r)"

text \<open>
  The state at the start: \<^verbatim>\<open>status = 0\<close>, no children, and in \<^verbatim>\<open>commands[0]\<close> whatever
  \<^verbatim>\<open>malloc\<close> returned (\<^verbatim>\<open>create_char_array\<close> does not clear it).
\<close>

definition initial :: "string \<Rightarrow> state" where
  "initial heap = \<lparr>status = 0, children = [], commands0 = heap, trace = []\<rparr>"

subsection \<open>Notions used to state the properties\<close>

text \<open>
  Surroundings in which every call succeeds: \<^verbatim>\<open>fork\<close> returns the given value, the
  foreground child exits with code 0, and no other child ends during the pass.
\<close>

definition calm :: "int \<Rightarrow> env" where
  "calm pid =
     \<lparr>fork_ret = pid, fg_ends = Some 0, finished = [],
      open_rd = (\<lambda>_. True), open_wr = (\<lambda>_. True), dup2_ok = (\<lambda>_. True),
      exec_ok = (\<lambda>_. True)\<rparr>"

text \<open>
  The file that is to become the input of the child: the one named on the line for a
  foreground command (none when no name was given), \<^verbatim>\<open>/dev/null\<close> for a background command.
\<close>

definition input_source :: "bool \<Rightarrow> string \<Rightarrow> string option" where
  "input_source fg_flag in_name =
     (if fg_flag then (if in_name \<noteq> [] then Some in_name else None) else Some ''/dev/null'')"

text \<open>
  The status \<^verbatim>\<open>waitpid\<close> stores for a child that called \<^verbatim>\<open>exit(n)\<close> (the low eight bits of
  \<open>n\<close>, shifted left by eight), and surroundings in which the foreground child, when its
  own branch ends in \<^verbatim>\<open>exit\<close>, ends with exactly that status.
\<close>

definition exit_status_of :: "int \<Rightarrow> int" where
  "exit_status_of n = push_bit 8 (and n 0xff)"

definition ends_as_child :: "env \<Rightarrow> child_result \<Rightarrow> bool" where
  "ends_as_child e r =
     (case r of ChildExit n msg \<Rightarrow> fg_ends e = Some (exit_status_of n) | _ \<Rightarrow> True)"

text \<open>
  The status that the calls of \<^verbatim>\<open>waitpid\<close> recorded in a trace stored last, by a
  foreground wait or by collecting a background child; 0, the initial value, when there
  was none.
\<close>

definition stored :: "event \<Rightarrow> int \<Rightarrow> int" where
  "stored ev st = (case ev of Waited p w \<Rightarrow> w | Reaped p w \<Rightarrow> w | _ \<Rightarrow> st)"

definition last_stored :: "event list \<Rightarrow> int" where
  "last_stored es = fold stored es 0"

definition stored_ok :: "state \<Rightarrow> bool" where
  "stored_ok s \<longleftrightarrow> status s = last_stored (trace s)"

text \<open>
  How the trace of \<^verbatim>\<open>part_000\<close> arises from the trace of \<^verbatim>\<open>smallsh.c\<close>: a status report
  follows every foreground wait, and the line announcing a background pid starts with a
  capital letter.
\<close>

definition capital :: "string \<Rightarrow> string" where
  "capital x = (case x of [] \<Rightarrow> [] | c # cs \<Rightarrow> if c = CHR ''b'' then CHR ''B'' # cs else x)"

definition commented_event :: "event \<Rightarrow> event list" where
  "commented_event ev =
     (case ev of
        Waited p w \<Rightarrow> Waited p w # map Stdout (get_status w)
      | Stdout x \<Rightarrow> [Stdout (capital x)]
      | _ \<Rightarrow> [ev])"

definition commented :: "event list \<Rightarrow> event list" where
  "commented es = concat (map commented_event es)"

definition corresponds :: "state \<Rightarrow> state \<Rightarrow> bool" where
  "corresponds s t \<longleftrightarrow>
     status t = status s \<and> children t = children s \<and> commands0 t = commands0 s
     \<and> trace t = commented (trace s)"

definition with_mode :: "nat \<Rightarrow> child_result \<Rightarrow> child_result" where
  "with_mode m c =
     (case c of
        Exec img \<Rightarrow> Exec (img\<lparr>stdout_to := map_option (\<lambda>(f, _). (f, m)) (stdout_to img)\<rparr>)
      | _ \<Rightarrow> c)"

fun agree :: "result \<Rightarrow> result \<Rightarrow> bool" where
  "agree (Fault f) (Fault g) \<longleftrightarrow> f = g"
| "agree (InChild c) (InChild d) \<longleftrightarrow> d = with_mode (creat_mode Part000) c"
| "agree (Exited m s) (Exited n t) \<longleftrightarrow> m = n \<and> corresponds s t"
| "agree (Blocked s) (Blocked t) \<longleftrightarrow> corresponds s t"
| "agree (Next s) (Next t) \<longleftrightarrow> corresponds s t"
| "agree _ _ \<longleftrightarrow> False"
section \<open>Properties\<close>

subsection \<open>Basic facts about the state\<close>

lemma add_events_simps [simp]:
  "status (add_events es s) = status s"
  "children (add_events es s) = children s"
  "commands0 (add_events es s) = commands0 s"
  "trace (add_events es s) = trace s @ es"
  by (simp_all add: add_events_def)

lemma elapse_simps [simp]:
  "status (elapse e s) = status s"
  "commands0 (elapse e s) = commands0 s"
  "trace (elapse e s) = trace s"
  by (simp_all add: elapse_def)

lemma first_command_add_events [simp]:
  "first_command p (add_events es s) = first_command p s"
  by (simp add: first_command_def split: list.splits)

lemma remove1_fresh:
  "pid \<notin> fst ` set t \<Longrightarrow> remove1 (pid, x) (t @ [(pid, x)]) = t"
  by (induction t) auto

subsection \<open>Facts about wait_for_children\<close>

lemma wait_for_children_unfold:
  "wait_for_children s =
     (case zombie (children s) of
        None \<Rightarrow> s
      | Some (p, w) \<Rightarrow>
          if 0 < p then
            wait_for_children
              (add_events (report p w)
                 (s\<lparr>status := w, children := remove1 (p, Zombie w) (children s)\<rparr>))
          else s)"
  by (subst wait_for_children.simps)
     (simp add: waitpid_nohang_def split: option.splits)

lemma wait_for_children_induct [consumes 0, case_names none nonpos reap]:
  assumes "\<And>s. zombie (children s) = None \<Longrightarrow> P s"
    and "\<And>s p w. zombie (children s) = Some (p, w) \<Longrightarrow> \<not> 0 < p \<Longrightarrow> P s"
    and "\<And>s p w. zombie (children s) = Some (p, w) \<Longrightarrow> 0 < p \<Longrightarrow>
           P (add_events (report p w)
                (s\<lparr>status := w, children := remove1 (p, Zombie w) (children s)\<rparr>)) \<Longrightarrow> P s"
  shows "P s"
proof (induction s rule: wait_for_children.induct)
  case (1 s)
  show ?case
  proof (cases "zombie (children s)")
    case None
    then show ?thesis by (rule assms(1))
  next
    case (Some pw)
    obtain p w where pw: "pw = (p, w)" by (cases pw)
    show ?thesis
    proof (cases "0 < p")
      case False
      with Some pw show ?thesis by (auto intro: assms(2))
    next
      case True
      have "waitpid_nohang (status s) (children s) = (p, w, remove1 (p, Zombie w) (children s))"
        using Some pw by (simp add: waitpid_nohang_def)
      from 1 [OF this [symmetric] refl True]
      have "P (add_events (report p w)
                (s\<lparr>status := w, children := remove1 (p, Zombie w) (children s)\<rparr>))"
        by simp
      with Some pw True show ?thesis by (auto intro: assms(3))
    qed
  qed
qed

lemma report_no_prompt: "Stdout '': '' \<notin> set (report p w)"
  by (auto simp: report_def get_status_def)

lemma wait_for_children_trace:
  "\<exists>es. trace (wait_for_children s) = trace s @ es \<and> Stdout '': '' \<notin> set es"
proof (induction s rule: wait_for_children_induct)
  case (none s)
  then show ?case by (subst wait_for_children_unfold) simp
next
  case (nonpos s p w)
  then show ?case by (subst wait_for_children_unfold) simp
next
  case (reap s p w)
  then obtain es where
    "trace (wait_for_children (add_events (report p w)
                (s\<lparr>status := w, children := remove1 (p, Zombie w) (children s)\<rparr>))) = trace s @ report p w @ es"
    and "Stdout '': '' \<notin> set es" by auto
  with reap(1,2) show ?case
    by (subst wait_for_children_unfold) (simp add: report_no_prompt)
qed

lemma wait_for_children_commands0 [simp]:
  "commands0 (wait_for_children s) = commands0 s"
proof (induction s rule: wait_for_children_induct)
  case (none s)
  then show ?case by (subst wait_for_children_unfold) simp
next
  case (nonpos s p w)
  then show ?case by (subst wait_for_children_unfold) simp
next
  case (reap s p w)
  then show ?case by (subst wait_for_children_unfold) simp
qed

lemma wait_for_children_subset:
  "set (children (wait_for_children s)) \<subseteq> set (children s)"
proof (induction s rule: wait_for_children_induct)
  case (none s)
  then show ?case by (subst wait_for_children_unfold) simp
next
  case (nonpos s p w)
  then show ?case by (subst wait_for_children_unfold) simp
next
  case (reap s p w)
  have "set (remove1 (p, Zombie w) (children s)) \<subseteq> set (children s)"
    by (rule set_remove1_subset)
  with reap show ?case by (subst wait_for_children_unfold) auto
qed

lemma fst_ends: "fst ` set (ends pw t) = fst ` set t"
  by (induction t) (auto simp: ends_def)

lemma fst_fold_ends: "fst ` set (fold ends ps t) = fst ` set t"
  by (induction ps arbitrary: t) (simp_all add: fst_ends)

subsection \<open>Facts about the tokens and the parsing loop\<close>

lemma tokenize_tokens:
  "t \<in> set (tokenize s) \<Longrightarrow> t \<noteq> [] \<and> (\<forall>c\<in>set t. \<not> delim c)"
proof (induction s rule: tokenize.induct)
  case (1 s)
  define s' where "s' = dropWhile delim s"
  show ?case
  proof (cases "s' = []")
    case True
    with 1(2) show ?thesis by (subst (asm) tokenize.simps) (simp add: s'_def)
  next
    case False
    then have hd: "\<not> delim (hd s')" unfolding s'_def by (simp add: hd_dropWhile)
    have eq: "tokenize s = takeWhile (\<lambda>c. \<not> delim c) s' # tokenize (dropWhile (\<lambda>c. \<not> delim c) s')"
      using False by (subst tokenize.simps) (simp add: s'_def Let_def)
    from 1(2)
    consider "t = takeWhile (\<lambda>c. \<not> delim c) s'"
      | "t \<in> set (tokenize (dropWhile (\<lambda>c. \<not> delim c) s'))"
      unfolding eq by auto
    then show ?thesis
    proof cases
      case 1
      from False hd have "takeWhile (\<lambda>c. \<not> delim c) s' \<noteq> []"
        by (cases s') auto
      moreover have "\<forall>c\<in>set (takeWhile (\<lambda>c. \<not> delim c) s'). \<not> delim c"
        by (auto dest: set_takeWhileD)
      ultimately show ?thesis using 1 by simp
    next
      case 2
      with "1.IH" [OF s'_def False] show ?thesis by simp
    qed
  qed
qed

lemma parse_loop_commands:
  "parse_loop ts p = Inr q \<Longrightarrow> set (commands q) \<subseteq> set (commands p) \<union> set ts"
  by (induction ts p rule: parse_loop.induct)
     (auto split: if_splits list.splits)

lemma parse_loop_fg:
  "parse_loop ts p = Inr q \<Longrightarrow> ''&'' \<notin> set ts \<Longrightarrow> fg q = fg p"
  by (induction ts p rule: parse_loop.induct)
     (auto split: if_splits list.splits)

lemma parse_line_commands:
  "parse_line input = Inr p \<Longrightarrow> set (commands p) \<subseteq> set (tokenize input)"
  by (auto simp: parse_line_def parse_init_def split: sum.splits if_splits
           dest!: parse_loop_commands)

lemma parse_line_fg:
  "parse_line input = Inr p \<Longrightarrow> ''&'' \<notin> set (tokenize input) \<Longrightarrow> fg p"
  by (auto simp: parse_line_def parse_init_def split: sum.splits if_splits
           dest!: parse_loop_fg)

subsection \<open>Facts about the dispatch\<close>

lemma dispatch_cases:
  obtains (skip) "dispatch v e p s = Next s"
  | (cd) "dispatch v e p s = change_directory (commands p) s"
  | (status) "dispatch v e p s = Next (add_events (map Stdout (get_status (status s))) s)"
  | (exit) "dispatch v e p s = exit_shell e s"
  | (launch) "dispatch v e p s =
       handle_fork_exec v e (fg p) (output_filename p) (input_filename p) (commands p) s"
proof -
  have "dispatch v e p s = Next s
      \<or> dispatch v e p s = change_directory (commands p) s
      \<or> dispatch v e p s = Next (add_events (map Stdout (get_status (status s))) s)
      \<or> dispatch v e p s = exit_shell e s
      \<or> dispatch v e p s =
          handle_fork_exec v e (fg p) (output_filename p) (input_filename p) (commands p) s"
    by (simp add: dispatch_def Let_def)
  then show thesis using that by blast
qed
subsection \<open>Parsing a line with both redirections\<close>

lemma tokenize_wc:
  "tokenize ''wc < in.txt > out.txt'' = [''wc'', ''<'', ''in.txt'', ''>'', ''out.txt'']"
  by code_simp

text \<open>
  C9.  The line \<^verbatim>\<open>wc < in.txt > out.txt\<close> (as typed, and as \<^verbatim>\<open>fgets\<close> stores it with the
  newline at its end) yields the arguments \<^verbatim>\<open>["wc"]\<close>, the input file \<^verbatim>\<open>in.txt\<close>, the
  output file \<^verbatim>\<open>out.txt\<close> and a foreground command.
\<close>

theorem parse_wc_roundtrip:
  "parse_line ''wc < in.txt > out.txt'' =
     Inr \<lparr>commands = [''wc''], fg = True,
          input_filename = ''in.txt'', output_filename = ''out.txt''\<rparr>
   \<and> parse_line ''wc < in.txt > out.txt\<newline>'' =
     Inr \<lparr>commands = [''wc''], fg = True,
          input_filename = ''in.txt'', output_filename = ''out.txt''\<rparr>"
  by code_simp

subsection \<open>A redirection operator at the end of the line\<close>

lemma parse_trailing_output: "parse_line ''ls >\<newline>'' = Inl NullPointer"
  by code_simp

lemma parse_trailing_input: "parse_line ''cat <\<newline>'' = Inl NullPointer"
  by code_simp

text \<open>
  C1.  The claim asks for a validation error "missing filename for redirection" and the
  next prompt when \<^verbatim>\<open><\<close> or \<^verbatim>\<open>>\<close> ends the line.  The loop does not test the token it
  fetches after the operator: on \<^verbatim>\<open>ls >\<close> and on \<^verbatim>\<open>cat <\<close> it hands NULL to \<^verbatim>\<open>strcpy\<close>, in
  both copies and in every state, so the pass ends in undefined behaviour and neither a
  diagnostic nor the next prompt follows.
\<close>

theorem trailing_redirect_null_pointer:
  "shell_step v e ''ls >\<newline>'' s = Fault NullPointer
   \<and> shell_step v e ''cat <\<newline>'' s = Fault NullPointer"
  by (simp add: shell_step_def parse_trailing_output parse_trailing_input)

subsection \<open>Rendering a status\<close>

lemma get_status_exited:
  "WIFEXITED st \<Longrightarrow>
   get_status st = [''The process exited normally\<newline>'',
                    ''The exit status was '' @ show_int (WEXITSTATUS st) @ ''\<newline>'']"
  by (simp add: get_status_def)

lemma get_status_not_exited:
  "\<not> WIFEXITED st \<Longrightarrow>
   get_status st = [''The process was terminated by a signal '' @ show_int st @ ''\<newline>'']"
  by (simp add: get_status_def)

lemma and_low_seven: "0 \<le> st \<Longrightarrow> st < 128 \<Longrightarrow> and st (0x7f::int) = st"
proof -
  assume a: "0 \<le> st" "st < 128"
  have "and st (mask 7) = take_bit 7 st" by (simp add: take_bit_eq_mask)
  also have "\<dots> = st" using a by (simp add: take_bit_int_eq_self)
  finally show ?thesis by (simp add: mask_eq_exp_minus_1)
qed

text \<open>
  A child killed by signal \<open>sig\<close> without a core dump leaves the status \<open>sig\<close>, and the
  number printed is the signal; a child that exits with code \<open>c\<close> leaves \<open>c\<close> shifted
  left by eight bits.
\<close>

lemma get_status_signal_without_core:
  assumes "0 < sig" and "sig < 127"
  shows "WIFSIGNALED sig \<and> \<not> WCOREDUMP sig \<and> WTERMSIG sig = sig
   \<and> get_status sig = [''The process was terminated by a signal '' @ show_int (WTERMSIG sig) @ ''\<newline>'']"
proof -
  from assms have t: "WTERMSIG sig = sig" by (simp add: WTERMSIG_def and_low_seven)
  have "and sig 0x80 = and (and sig 0x7f) 0x80" using assms by (simp add: and_low_seven)
  also have "\<dots> = and sig (and 0x7f 0x80)" by (simp only: and.assoc)
  also have "\<dots> = 0" by simp
  finally have c: "\<not> WCOREDUMP sig" by (simp add: WCOREDUMP_def)
  from t assms c show ?thesis
    by (simp add: WIFSIGNALED_def WIFEXITED_def get_status_def)
qed

lemma exit_status_roundtrip:
  assumes "0 \<le> c" and "c < 256"
  shows "WIFEXITED (push_bit 8 c) \<and> WEXITSTATUS (push_bit 8 c) = c"
proof -
  have "and (push_bit 8 c) (mask 7) = take_bit 7 (push_bit 8 c)" by (simp add: take_bit_eq_mask)
  also have "\<dots> = 0" by (simp add: take_bit_push_bit)
  finally have e: "WIFEXITED (push_bit 8 c)"
    by (simp add: WIFEXITED_def WTERMSIG_def mask_eq_exp_minus_1)
  have "and c (mask 8) = take_bit 8 c" by (simp add: take_bit_eq_mask)
  also have "\<dots> = c" using assms by (simp add: take_bit_int_eq_self)
  finally have c255: "and c 0xff = c" by (simp add: mask_eq_exp_minus_1)
  have "(0xff00::int) = push_bit 8 0xff" by (simp add: push_bit_eq_mult)
  then have "and (push_bit 8 c) 0xff00 = push_bit 8 (and c 0xff)"
    by (simp only: push_bit_and)
  then have "WEXITSTATUS (push_bit 8 c) = c"
    by (simp add: WEXITSTATUS_def c255 drop_bit_push_bit)
  with e show ?thesis by simp
qed

text \<open>
  C2.  The claim wants the number of the signal in the second form.  \<^verbatim>\<open>get_status\<close> prints
  the whole status word instead of \<^verbatim>\<open>WTERMSIG\<close> of it.  The two agree unless a core was
  dumped: a child killed by signal 11 with a core dump leaves the status 139, and the line
  printed names 139.
\<close>

theorem get_status_prints_status_word:
  "WIFSIGNALED 139 \<and> WCOREDUMP 139 \<and> WTERMSIG 139 = 11
   \<and> get_status 139 = [''The process was terminated by a signal 139\<newline>'']"
  by code_simp

subsection \<open>The status kept by the shell\<close>

lemma stored_simps [simp]:
  "stored (Stdout x) st = st"
  "stored (Stderr x) st = st"
  "stored (Forked p) st = st"
  "stored (Chdir d) st = st"
  "stored (Waited p w) st = w"
  "stored (Reaped p w) st = w"
  by (simp_all add: stored_def)

lemma fold_stored_stdout [simp]: "fold stored (map Stdout xs) st = st"
  by (induction xs) simp_all

lemma last_stored_append [simp]: "last_stored (es @ fs) = fold stored fs (last_stored es)"
  by (simp add: last_stored_def)

lemma fold_stored_report [simp]: "fold stored (report p w) st = w"
  by (simp add: report_def)

lemma wait_for_children_stored:
  "status s = last_stored (trace s) \<Longrightarrow>
   status (wait_for_children s) = last_stored (trace (wait_for_children s))"
proof (induction s rule: wait_for_children_induct)
  case (none s)
  then show ?case by (subst (1 2) wait_for_children_unfold) simp
next
  case (nonpos s p w)
  then show ?case by (subst (1 2) wait_for_children_unfold) simp
next
  case (reap s p w)
  have "status (wait_for_children (add_events (report p w)
                (s\<lparr>status := w, children := remove1 (p, Zombie w) (children s)\<rparr>))) = 
    last_stored (trace (wait_for_children (add_events (report p w)
                (s\<lparr>status := w, children := remove1 (p, Zombie w) (children s)\<rparr>))))"
    by (rule reap.IH) simp
  with reap(1,2) show ?case
    by (subst (1 2) wait_for_children_unfold) simp
qed

lemma waitpid_block_stored:
  "waitpid_block e pid s = Some s' \<Longrightarrow> stored_ok s \<Longrightarrow> stored_ok s'"
  by (auto simp: waitpid_block_def stored_ok_def split: option.splits proc.splits)

lemma handle_fork_exec_stored:
  assumes "stored_ok s" and "handle_fork_exec v e f out_name in_name cmds s = Next s'"
  shows "stored_ok s'"
proof -
  let ?s1 = "add_events [Forked (fork_ret e)] (s\<lparr>children := children s @ [(fork_ret e, Running)]\<rparr>)"
  have s1: "stored_ok ?s1" using assms(1) by (simp add: stored_ok_def)
  from assms(2) have pos: "0 < fork_ret e"
    by (auto simp: handle_fork_exec_def exit_shell_def Let_def split: if_splits)
  show ?thesis
  proof (cases f)
    case False
    with assms(2) pos s1 show ?thesis
      by (auto simp: handle_fork_exec_def Let_def stored_ok_def)
  next
    case True
    with assms(2) pos obtain s2 where w: "waitpid_block e (fork_ret e) ?s1 = Some s2"
      and s': "s' = (case v of Smallsh \<Rightarrow> s2
                     | Part000 \<Rightarrow> add_events (map Stdout (get_status (status s2))) s2)"
      by (auto simp: handle_fork_exec_def Let_def split: option.splits)
    from waitpid_block_stored [OF w s1] show ?thesis
      unfolding s' by (cases v) (simp_all add: stored_ok_def)
  qed
qed

lemma change_directory_stored:
  "change_directory cmds s = Next s' \<Longrightarrow> stored_ok s \<Longrightarrow> stored_ok s'"
  by (auto simp: change_directory_def stored_ok_def split: list.splits)

lemma dispatch_stored:
  assumes "stored_ok s" and "dispatch v e p s = Next s'"
  shows "stored_ok s'"
proof (cases v e p s rule: dispatch_cases)
  case skip
  with assms show ?thesis by simp
next
  case cd
  with assms show ?thesis by (simp add: change_directory_stored)
next
  case status
  with assms show ?thesis by (auto simp: stored_ok_def)
next
  case exit
  with assms show ?thesis by (simp add: exit_shell_def Let_def)
next
  case launch
  with assms show ?thesis by (simp add: handle_fork_exec_stored)
qed

text \<open>
  C3, as the claim states it, fails: the last foreground child (pid 8) exits with code 0,
  then the background child 7, which exited with code 1, is collected, and \<^verbatim>\<open>status\<close>
  reports the exit status 1.
\<close>

theorem status_after_background_reap_counterexample:
  "run_shell Smallsh
     [(calm 7, ''sleep 1 &\<newline>''),
      ((calm 8)\<lparr>finished := [(7, 256)]\<rparr>, ''ls\<newline>''),
      (calm 9, ''status\<newline>'')]
     (initial [])
   = Exited 0
       \<lparr>status = 256, children = [], commands0 = [],
        trace =
          [Stdout '': '', Forked 7, Stdout ''background process id number 7\<newline>'',
           Stdout '': '', Forked 8, Waited 8 0, Reaped 7 256,
           Stdout ''Background process 7 closed\<newline>'',
           Stdout ''The process exited normally\<newline>'',
           Stdout ''The exit status was 1\<newline>'',
           Stdout '': '',
           Stdout ''The process exited normally\<newline>'',
           Stdout ''The exit status was 1\<newline>'',
           Stdout '': '']\<rparr>
   \<and> get_status 0 = [''The process exited normally\<newline>'', ''The exit status was 0\<newline>'']"
  by code_simp

text \<open>
  C3, amended.  The shell keeps one variable \<^verbatim>\<open>status\<close>.  At the start and after every
  pass of the loop it holds the status that \<^verbatim>\<open>waitpid\<close> stored last, whether in the wait
  for a foreground child or when \<^verbatim>\<open>wait_for_children\<close> collected a background child (0
  before any).  The built-in \<^verbatim>\<open>status\<close> prints this variable with \<^verbatim>\<open>get_status\<close>, the
  rendering also used for the background reports, right after the prompt.
\<close>

theorem status_builtin_renders_last_stored:
  "stored_ok (initial heap)
   \<and> (stored_ok s \<and> shell_step v e input s = Next s' \<longrightarrow> stored_ok s')
   \<and> (parse_line input = Inr p \<and> first_command p s = ''status''
        \<longrightarrow> (\<exists>s'' es. shell_step v e input s = Next s''
               \<and> trace s'' = trace s @ Stdout '': '' # map Stdout (get_status (status s)) @ es))"
proof (intro conjI impI)
  show "stored_ok (initial heap)"
    by (simp add: initial_def last_stored_def stored_ok_def)
next
  assume a: "stored_ok s \<and> shell_step v e input s = Next s'"
  then obtain p s2 where p: "parse_line input = Inr p"
    and d: "dispatch v e p (add_events [Stdout '': ''] s) = Next s2"
    and s': "s' = (wait_for_children (elapse e s2))\<lparr>commands0 := []\<rparr>"
    by (auto simp: shell_step_def finish_pass_def split: sum.splits result.splits)
  from a have "stored_ok (add_events [Stdout '': ''] s)"
    by (simp add: stored_ok_def)
  from dispatch_stored [OF this d] have "status (elapse e s2) = last_stored (trace (elapse e s2))"
    by (simp add: stored_ok_def)
  from wait_for_children_stored [OF this] show "stored_ok s'"
    by (simp add: s' stored_ok_def)
next
  assume a: "parse_line input = Inr p \<and> first_command p s = ''status''"
  let ?s2 = "add_events (map Stdout (get_status (status s))) (add_events [Stdout '': ''] s)"
  from a have "first_command p (add_events [Stdout '': ''] s) = ''status''"
    by simp
  then have "dispatch v e p (add_events [Stdout '': ''] s) = Next ?s2"
    by (simp add: dispatch_def)
  with a have "shell_step v e input s = Next ((wait_for_children (elapse e ?s2))\<lparr>commands0 := []\<rparr>)"
    by (simp add: shell_step_def finish_pass_def)
  moreover obtain es where "trace (wait_for_children (elapse e ?s2)) = trace (elapse e ?s2) @ es"
    using wait_for_children_trace by blast
  ultimately show "\<exists>s'' es. shell_step v e input s = Next s''
               \<and> trace s'' = trace s @ Stdout '': '' # map Stdout (get_status (status s)) @ es"
    by simp
qed

theorem status_builtin_renders_last_stored_witness:
  "stored_ok (initial [])
   \<and> shell_step Smallsh ((calm 8)\<lparr>finished := [(7, 256)]\<rparr>) ''ls\<newline>''
        ((initial [])\<lparr>children := [(7, Running)]\<rparr>)
      = Next \<lparr>status = 256, children = [], commands0 = [],
              trace = [Stdout '': '', Forked 8, Waited 8 0, Reaped 7 256,
                       Stdout ''Background process 7 closed\<newline>'',
                       Stdout ''The process exited normally\<newline>'',
                       Stdout ''The exit status was 1\<newline>'']\<rparr>
   \<and> stored_ok \<lparr>status = 256, children = [], commands0 = [],
              trace = [Stdout '': '', Forked 8, Waited 8 0, Reaped 7 256,
                       Stdout ''Background process 7 closed\<newline>'',
                       Stdout ''The process exited normally\<newline>'',
                       Stdout ''The exit status was 1\<newline>'']\<rparr>
   \<and> parse_line ''status\<newline>''
      = Inr \<lparr>commands = [''status''], fg = True, input_filename = [], output_filename = []\<rparr>
   \<and> (\<exists>s'' es. shell_step Smallsh (calm 9) ''status\<newline>'' (initial []\<lparr>status := 256\<rparr>) = Next s''
          \<and> trace s'' = Stdout '': '' # map Stdout (get_status 256) @ es)"
proof -
  let ?s = "(initial [])\<lparr>children := [(7, Running)]\<rparr>"
  let ?s' = "\<lparr>status = 256, children = [], commands0 = [],
              trace = [Stdout '': '', Forked 8, Waited 8 0, Reaped 7 256,
                       Stdout ''Background process 7 closed\<newline>'',
                       Stdout ''The process exited normally\<newline>'',
                       Stdout ''The exit status was 1\<newline>'']\<rparr>"
  let ?p = "\<lparr>commands = [''status''], fg = True, input_filename = [], output_filename = []\<rparr>"
  have ok: "stored_ok ?s" by code_simp
  have step: "shell_step Smallsh ((calm 8)\<lparr>finished := [(7, 256)]\<rparr>) ''ls\<newline>'' ?s = Next ?s'"
    by code_simp
  have parse: "parse_line ''status\<newline>'' = Inr ?p" by code_simp
  have first: "first_command ?p (initial []\<lparr>status := 256\<rparr>) = ''status''"
    by (simp add: first_command_def)
  note thm1 = status_builtin_renders_last_stored
      [of "[]" ?s Smallsh "(calm 8)\<lparr>finished := [(7, 256)]\<rparr>" "''ls\<newline>''" ?s' ?p]
  note thm2 = status_builtin_renders_last_stored
      [of "[]" "initial []\<lparr>status := 256\<rparr>" Smallsh "calm 9" "''status\<newline>''" ?s' ?p]
  from thm1 ok step have "stored_ok (initial [])" and "stored_ok ?s'" by blast+
  moreover from thm2 parse first
  have "\<exists>s'' es. shell_step Smallsh (calm 9) ''status\<newline>'' (initial []\<lparr>status := 256\<rparr>) = Next s''
          \<and> trace s'' = trace (initial []\<lparr>status := 256\<rparr>) @ Stdout '': ''
                # map Stdout (get_status (status (initial []\<lparr>status := 256\<rparr>))) @ es"
    by blast
  then have "\<exists>s'' es. shell_step Smallsh (calm 9) ''status\<newline>'' (initial []\<lparr>status := 256\<rparr>) = Next s''
          \<and> trace s'' = Stdout '': '' # map Stdout (get_status 256) @ es"
    by (simp add: initial_def)
  ultimately show ?thesis using step parse by blast
qed

subsection \<open>The input of the child\<close>

lemma redirect_input_open_fails:
  "input_source fg_flag in_name = Some f \<Longrightarrow> \<not> open_rd e f \<Longrightarrow>
   redirect_input e fg_flag in_name = Inl ''Error opening input file\<newline>''"
  by (auto simp: redirect_input_def input_source_def Let_def split: if_splits)

lemma redirect_input_dup2_fails:
  "input_source fg_flag in_name = Some f \<Longrightarrow> open_rd e f \<Longrightarrow> \<not> dup2_ok e 0 \<Longrightarrow>
   redirect_input e fg_flag in_name = Inl ''Error redirecting the input\<newline>''"
  by (auto simp: redirect_input_def input_source_def Let_def split: if_splits)

lemma redirect_input_succeeds:
  "input_source fg_flag in_name = None
     \<or> (\<exists>f. input_source fg_flag in_name = Some f \<and> open_rd e f \<and> dup2_ok e 0) \<Longrightarrow>
   redirect_input e fg_flag in_name = Inr (input_source fg_flag in_name)"
  by (auto simp: redirect_input_def input_source_def Let_def split: if_splits)

lemma redirect_input_cases:
  "redirect_input e fg_flag in_name = Inr src \<Longrightarrow> src = input_source fg_flag in_name"
  by (auto simp: redirect_input_def input_source_def Let_def split: if_splits)

lemma redirect_output_succeeds:
  "out_name = [] \<or> (open_wr e out_name \<and> dup2_ok e 1) \<Longrightarrow>
   redirect_output v e out_name
     = Inr (if out_name = [] then None else Some (out_name, creat_mode v))"
  by (auto simp: redirect_output_def)

lemma child_open_fails:
  "input_source fg_flag in_name = Some f \<Longrightarrow> \<not> open_rd e f \<Longrightarrow>
   child_branch v e fg_flag out_name in_name cmds = ChildExit 1 ''Error opening input file\<newline>''"
  by (simp add: child_branch_def redirect_input_open_fails)

lemma child_dup2_fails:
  "input_source fg_flag in_name = Some f \<Longrightarrow> open_rd e f \<Longrightarrow> \<not> dup2_ok e 0 \<Longrightarrow>
   child_branch v e fg_flag out_name in_name cmds = ChildExit 1 ''Error redirecting the input\<newline>''"
  by (simp add: child_branch_def redirect_input_dup2_fails)

lemma child_succeeds:
  assumes "input_source fg_flag in_name = None
      \<or> (\<exists>f. input_source fg_flag in_name = Some f \<and> open_rd e f \<and> dup2_ok e 0)"
    and "out_name = [] \<or> (open_wr e out_name \<and> dup2_ok e 1)"
    and "cmds = c # args" and "exec_ok e c"
  shows "child_branch v e fg_flag out_name in_name cmds
     = Exec \<lparr>argv = cmds, stdin_from = input_source fg_flag in_name,
             stdout_to = (if out_name = [] then None else Some (out_name, creat_mode v)),
             sigint = (if fg_flag then SIG_DFL else SIG_IGN)\<rparr>"
  using assms(3,4)
  by (simp add: child_branch_def redirect_input_succeeds [OF assms(1)]
        redirect_output_succeeds [OF assms(2)])

lemma child_exec_stdin:
  assumes "child_branch v e fg_flag out_name in_name cmds = Exec img"
  shows "stdin_from img = input_source fg_flag in_name"
proof (cases "redirect_input e fg_flag in_name")
  case (Inl m)
  with assms show ?thesis by (simp add: child_branch_def)
next
  case (Inr src)
  then have src: "src = input_source fg_flag in_name" by (rule redirect_input_cases)
  from assms Inr show ?thesis unfolding src
    by (auto simp: child_branch_def split: sum.splits list.splits if_splits)
qed

lemma child_exit_one:
  "child_branch v e fg_flag out_name in_name cmds = ChildExit n msg \<Longrightarrow> n = 1"
  by (auto simp: child_branch_def split: sum.splits list.splits if_splits)

lemma exit_status_of_one: "exit_status_of 1 = 256"
  by (simp add: exit_status_of_def)

lemma shell_after_child_failure:
  assumes pid: "0 < fork_ret e" and fresh: "fork_ret e \<notin> fst ` set (children s)"
    and ends: "ends_as_child e (child_branch v e fg_flag out_name in_name cmds)"
    and fails: "\<exists>f. input_source fg_flag in_name = Some f \<and> (\<not> open_rd e f \<or> \<not> dup2_ok e 0)"
  shows "\<exists>s'. handle_fork_exec v e fg_flag out_name in_name cmds s = Next s'
           \<and> children s' = (if fg_flag then children s else children s @ [(fork_ret e, Running)])
           \<and> status s' = (if fg_flag then 256 else status s)
           \<and> (fg_flag \<longrightarrow> Waited (fork_ret e) 256 \<in> set (trace s'))"
proof -
  let ?pid = "fork_ret e"
  let ?s1 = "add_events [Forked ?pid] (s\<lparr>children := children s @ [(?pid, Running)]\<rparr>)"
  from fails obtain m where "child_branch v e fg_flag out_name in_name cmds = ChildExit 1 m"
    using child_open_fails child_dup2_fails by metis
  with ends have w: "fg_ends e = Some 256"
    by (simp add: ends_as_child_def exit_status_of_one)
  have "map_of (children s) ?pid = None"
    using fresh by (simp add: map_of_eq_None_iff)
  then have look: "map_of (children ?s1) ?pid = Some Running"
    by (simp add: map_add_def)
  have rem: "remove1 (?pid, Running) (children ?s1) = children s"
    using fresh by (simp add: remove1_fresh)
  show ?thesis
  proof (cases fg_flag)
    case False
    with pid show ?thesis by (simp add: handle_fork_exec_def Let_def)
  next
    case True
    with pid w look rem show ?thesis
      by (cases v) (simp_all add: handle_fork_exec_def waitpid_block_def Let_def)
  qed
qed

text \<open>
  C4, as the claim states it, fails: for the background command \<^verbatim>\<open>cat < in.txt &\<close>, which
  names an input file, the child does not keep the shell's input; it reads from
  \<^verbatim>\<open>/dev/null\<close>.
\<close>

theorem background_input_counterexample:
  "shell_step Smallsh (calm 0) ''cat < in.txt &\<newline>'' (initial [])
   = InChild (Exec \<lparr>argv = [''cat''], stdin_from = Some ''/dev/null'', stdout_to = None,
                    sigint = SIG_IGN\<rparr>)"
  by code_simp

text \<open>
  C4, amended.  The input of the child is \<open>input_source\<close>: a foreground child opens the
  file named on the line read-only and keeps the shell's input when none is named; a
  background child always opens \<^verbatim>\<open>/dev/null\<close>, whether or not the line names a file.
  \<^item> When that \<^verbatim>\<open>open\<close> fails, or the \<^verbatim>\<open>dup2\<close> onto descriptor 0 after it, the child writes
    the matching line and ends with \<^verbatim>\<open>exit(1)\<close>.
  \<^item> When both succeed (or there is nothing to open), the output redirection succeeds and
    \<^verbatim>\<open>execvp\<close> finds the program, the program starts with exactly this input.
  \<^item> No program is ever started with another input, and the child never exits with
    another code.
  \<^item> All of this happens in the process for which \<^verbatim>\<open>fork\<close> returned 0.  The shell, for
    which \<^verbatim>\<open>fork\<close> returned a new pid, does not end: when the child failed on its input
    and ended with the status of \<^verbatim>\<open>exit(1)\<close>, the shell returns from a foreground wait with
    the status 256 (exit code 1) and the child collected, and after a background launch
    with its status untouched.
\<close>

theorem child_input_resolution:
  "(\<forall>f. input_source fg_flag in_name = Some f \<and> \<not> open_rd e f \<longrightarrow>
        child_branch v e fg_flag out_name in_name cmds
          = ChildExit 1 ''Error opening input file\<newline>'')
   \<and> (\<forall>f. input_source fg_flag in_name = Some f \<and> open_rd e f \<and> \<not> dup2_ok e 0 \<longrightarrow>
        child_branch v e fg_flag out_name in_name cmds
          = ChildExit 1 ''Error redirecting the input\<newline>'')
   \<and> ((input_source fg_flag in_name = None
         \<or> (\<exists>f. input_source fg_flag in_name = Some f \<and> open_rd e f \<and> dup2_ok e 0))
        \<and> (out_name = [] \<or> (open_wr e out_name \<and> dup2_ok e 1))
        \<and> cmds = c # args \<and> exec_ok e c \<longrightarrow>
        child_branch v e fg_flag out_name in_name cmds
          = Exec \<lparr>argv = cmds, stdin_from = input_source fg_flag in_name,
                  stdout_to = (if out_name = [] then None else Some (out_name, creat_mode v)),
                  sigint = (if fg_flag then SIG_DFL else SIG_IGN)\<rparr>)
   \<and> (child_branch v e fg_flag out_name in_name cmds = Exec img \<longrightarrow>
        stdin_from img = input_source fg_flag in_name)
   \<and> (child_branch v e fg_flag out_name in_name cmds = ChildExit n msg \<longrightarrow> n = 1)
   \<and> (fork_ret e = 0 \<longrightarrow>
        handle_fork_exec v e fg_flag out_name in_name cmds s
          = InChild (child_branch v e fg_flag out_name in_name cmds))
   \<and> (0 < fork_ret e \<and> fork_ret e \<notin> fst ` set (children s)
        \<and> ends_as_child e (child_branch v e fg_flag out_name in_name cmds)
        \<and> (\<exists>f. input_source fg_flag in_name = Some f \<and> (\<not> open_rd e f \<or> \<not> dup2_ok e 0)) \<longrightarrow>
        (\<exists>s'. handle_fork_exec v e fg_flag out_name in_name cmds s = Next s'
           \<and> children s' = (if fg_flag then children s else children s @ [(fork_ret e, Running)])
           \<and> status s' = (if fg_flag then 256 else status s)
           \<and> (fg_flag \<longrightarrow> Waited (fork_ret e) 256 \<in> set (trace s'))))"
proof (intro conjI allI impI)
  fix f
  assume "input_source fg_flag in_name = Some f \<and> \<not> open_rd e f"
  then show "child_branch v e fg_flag out_name in_name cmds
      = ChildExit 1 ''Error opening input file\<newline>''"
    by (simp add: child_open_fails)
next
  fix f
  assume "input_source fg_flag in_name = Some f \<and> open_rd e f \<and> \<not> dup2_ok e 0"
  then show "child_branch v e fg_flag out_name in_name cmds
      = ChildExit 1 ''Error redirecting the input\<newline>''"
    by (simp add: child_dup2_fails)
next
  assume "(input_source fg_flag in_name = None
         \<or> (\<exists>f. input_source fg_flag in_name = Some f \<and> open_rd e f \<and> dup2_ok e 0))
        \<and> (out_name = [] \<or> (open_wr e out_name \<and> dup2_ok e 1))
        \<and> cmds = c # args \<and> exec_ok e c"
  then show "child_branch v e fg_flag out_name in_name cmds
          = Exec \<lparr>argv = cmds, stdin_from = input_source fg_flag in_name,
                  stdout_to = (if out_name = [] then None else Some (out_name, creat_mode v)),
                  sigint = (if fg_flag then SIG_DFL else SIG_IGN)\<rparr>"
    by (intro child_succeeds) blast+
next
  assume "child_branch v e fg_flag out_name in_name cmds = Exec img"
  then show "stdin_from img = input_source fg_flag in_name" by (rule child_exec_stdin)
next
  assume "child_branch v e fg_flag out_name in_name cmds = ChildExit n msg"
  then show "n = 1" by (rule child_exit_one)
next
  assume "fork_ret e = 0"
  then show "handle_fork_exec v e fg_flag out_name in_name cmds s
      = InChild (child_branch v e fg_flag out_name in_name cmds)"
    by (simp add: handle_fork_exec_def)
next
  assume "0 < fork_ret e \<and> fork_ret e \<notin> fst ` set (children s)
        \<and> ends_as_child e (child_branch v e fg_flag out_name in_name cmds)
        \<and> (\<exists>f. input_source fg_flag in_name = Some f \<and> (\<not> open_rd e f \<or> \<not> dup2_ok e 0))"
  then show "\<exists>s'. handle_fork_exec v e fg_flag out_name in_name cmds s = Next s'
           \<and> children s' = (if fg_flag then children s else children s @ [(fork_ret e, Running)])
           \<and> status s' = (if fg_flag then 256 else status s)
           \<and> (fg_flag \<longrightarrow> Waited (fork_ret e) 256 \<in> set (trace s'))"
    by (intro shell_after_child_failure) blast+
qed

theorem child_input_resolution_witness:
  "child_branch Smallsh ((calm 0)\<lparr>open_rd := (\<lambda>f. f \<noteq> ''missing'')\<rparr>) True [] ''missing'' [''cat'']
     = ChildExit 1 ''Error opening input file\<newline>''
   \<and> child_branch Smallsh ((calm 0)\<lparr>dup2_ok := (\<lambda>fd. fd \<noteq> 0)\<rparr>) False [] ''in.txt'' [''cat'']
     = ChildExit 1 ''Error redirecting the input\<newline>''
   \<and> child_branch Smallsh (calm 0) False [] ''in.txt'' [''cat'']
     = Exec \<lparr>argv = [''cat''], stdin_from = Some ''/dev/null'', stdout_to = None,
             sigint = SIG_IGN\<rparr>
   \<and> child_branch Smallsh (calm 0) True ''out'' ''in.txt'' [''wc'']
     = Exec \<lparr>argv = [''wc''], stdin_from = Some ''in.txt'', stdout_to = Some (''out'', 484),
             sigint = SIG_DFL\<rparr>
   \<and> child_branch Smallsh (calm 0) True [] [] [''ls'']
     = Exec \<lparr>argv = [''ls''], stdin_from = None, stdout_to = None, sigint = SIG_DFL\<rparr>
   \<and> handle_fork_exec Smallsh ((calm 0)\<lparr>open_rd := (\<lambda>f. f \<noteq> ''missing'')\<rparr>) True []
        ''missing'' [''cat''] (initial [])
     = InChild (ChildExit 1 ''Error opening input file\<newline>'')
   \<and> ends_as_child ((calm 8)\<lparr>open_rd := (\<lambda>f. f \<noteq> ''missing''), fg_ends := Some 256\<rparr>)
        (child_branch Smallsh ((calm 8)\<lparr>open_rd := (\<lambda>f. f \<noteq> ''missing''), fg_ends := Some 256\<rparr>)
           True [] ''missing'' [''cat''])
   \<and> (\<exists>s'. handle_fork_exec Smallsh
               ((calm 8)\<lparr>open_rd := (\<lambda>f. f \<noteq> ''missing''), fg_ends := Some 256\<rparr>)
               True [] ''missing'' [''cat''] (initial []) = Next s'
          \<and> children s' = [] \<and> status s' = 256 \<and> Waited 8 256 \<in> set (trace s'))"
proof -
  let ?nofile = "(calm 0)\<lparr>open_rd := (\<lambda>f. f \<noteq> ''missing'')\<rparr>"
  let ?nodup = "(calm 0)\<lparr>dup2_ok := (\<lambda>fd. fd \<noteq> 0)\<rparr>"
  let ?shell = "(calm 8)\<lparr>open_rd := (\<lambda>f. f \<noteq> ''missing''), fg_ends := Some 256\<rparr>"
  note open_fails = child_input_resolution [THEN conjunct1, rule_format]
  note dup2_fails = child_input_resolution [THEN conjunct2, THEN conjunct1, rule_format]
  note succeeds = child_input_resolution [THEN conjunct2, THEN conjunct2, THEN conjunct1, rule_format]
  note in_child = child_input_resolution
    [THEN conjunct2, THEN conjunct2, THEN conjunct2, THEN conjunct2, THEN conjunct2,
     THEN conjunct1, rule_format]
  note in_shell = child_input_resolution
    [THEN conjunct2, THEN conjunct2, THEN conjunct2, THEN conjunct2, THEN conjunct2,
     THEN conjunct2, rule_format]
  have missing: "input_source True ''missing'' = Some ''missing''"
    and named: "input_source True ''in.txt'' = Some ''in.txt''"
    and none: "input_source True [] = None"
    and null: "input_source False ''in.txt'' = Some ''/dev/null''"
    by (simp_all add: input_source_def)
  have closed: "\<not> open_rd ?nofile ''missing''" "\<not> open_rd ?shell ''missing''"
    by (simp_all add: calm_def)
  have nodup: "open_rd ?nodup ''/dev/null''" "\<not> dup2_ok ?nodup 0"
    by (simp_all add: calm_def)
  have calm: "open_rd (calm 0) f" "open_wr (calm 0) f" "dup2_ok (calm 0) fd" "exec_ok (calm 0) f"
    for f fd
    by (simp_all add: calm_def)
  have c1: "child_branch Smallsh ?nofile True [] ''missing'' [''cat'']
      = ChildExit 1 ''Error opening input file\<newline>''"
    by (rule open_fails) (rule conjI [OF missing closed(1)])
  have c2: "child_branch Smallsh ?nodup False [] ''in.txt'' [''cat'']
      = ChildExit 1 ''Error redirecting the input\<newline>''"
    by (rule dup2_fails [where f = "''/dev/null''"]) (intro conjI null nodup)
  have "child_branch Smallsh (calm 0) False [] ''in.txt'' [''cat'']
      = Exec \<lparr>argv = [''cat''], stdin_from = input_source False ''in.txt'',
              stdout_to = (if [] = ([]::string) then None else Some ([], creat_mode Smallsh)),
              sigint = (if False then SIG_DFL else SIG_IGN)\<rparr>"
    by (rule succeeds [where c = "''cat''" and args = "[]"])
       (intro conjI disjI2 exI [of _ "''/dev/null''"] null calm refl | rule disjI1, rule refl)+
  then have c3: "child_branch Smallsh (calm 0) False [] ''in.txt'' [''cat'']
      = Exec \<lparr>argv = [''cat''], stdin_from = Some ''/dev/null'', stdout_to = None,
              sigint = SIG_IGN\<rparr>"
    by (simp only: null if_True if_False refl)
  have "child_branch Smallsh (calm 0) True ''out'' ''in.txt'' [''wc'']
      = Exec \<lparr>argv = [''wc''], stdin_from = input_source True ''in.txt'',
              stdout_to = (if ''out'' = [] then None else Some (''out'', creat_mode Smallsh)),
              sigint = (if True then SIG_DFL else SIG_IGN)\<rparr>"
    by (rule succeeds [where c = "''wc''" and args = "[]"])
       (intro conjI disjI2 exI [of _ "''in.txt''"] named calm refl)
  then have c4: "child_branch Smallsh (calm 0) True ''out'' ''in.txt'' [''wc'']
      = Exec \<lparr>argv = [''wc''], stdin_from = Some ''in.txt'', stdout_to = Some (''out'', 484),
              sigint = SIG_DFL\<rparr>"
    by (simp add: named creat_mode_def)
  have "child_branch Smallsh (calm 0) True [] [] [''ls'']
      = Exec \<lparr>argv = [''ls''], stdin_from = input_source True [],
              stdout_to = (if [] = ([]::string) then None else Some ([], creat_mode Smallsh)),
              sigint = (if True then SIG_DFL else SIG_IGN)\<rparr>"
    by (rule succeeds [where c = "''ls''" and args = "[]"])
       (intro conjI disjI1 none calm refl)
  then have c5: "child_branch Smallsh (calm 0) True [] [] [''ls'']
      = Exec \<lparr>argv = [''ls''], stdin_from = None, stdout_to = None, sigint = SIG_DFL\<rparr>"
    by (simp only: none if_True refl)
  have "fork_ret ?nofile = 0" by (simp add: calm_def)
  then have "handle_fork_exec Smallsh ?nofile True [] ''missing'' [''cat''] (initial [])
      = InChild (child_branch Smallsh ?nofile True [] ''missing'' [''cat''])"
    by (rule in_child)
  then have c6: "handle_fork_exec Smallsh ?nofile True [] ''missing'' [''cat''] (initial [])
      = InChild (ChildExit 1 ''Error opening input file\<newline>'')"
    by (simp only: c1)
  have e: "ends_as_child ?shell (child_branch Smallsh ?shell True [] ''missing'' [''cat''])"
    by code_simp
  have pid: "fork_ret ?shell = 8" by (simp add: calm_def)
  have h: "0 < fork_ret ?shell" "fork_ret ?shell \<notin> fst ` set (children (initial []))"
    by (simp_all add: calm_def initial_def)
  have "\<exists>s'. handle_fork_exec Smallsh ?shell True [] ''missing'' [''cat''] (initial []) = Next s'
      \<and> children s' = (if True then children (initial [])
                         else children (initial []) @ [(fork_ret ?shell, Running)])
      \<and> status s' = (if True then 256 else status (initial []))
      \<and> (True \<longrightarrow> Waited (fork_ret ?shell) 256 \<in> set (trace s'))"
    by (rule in_shell)
       (intro conjI h e exI [of _ "''missing''"] missing disjI1 closed(2))
  then have c7: "\<exists>s'. handle_fork_exec Smallsh ?shell True [] ''missing'' [''cat''] (initial []) = Next s'
      \<and> children s' = [] \<and> status s' = 256 \<and> Waited 8 256 \<in> set (trace s')"
    unfolding pid by (simp add: initial_def)
  from c1 c2 c3 c4 c5 c6 e c7 show ?thesis by (intro conjI)
qed

subsection \<open>Leaving the shell\<close>

text \<open>
  C5.  The claim, like the comments of \<^verbatim>\<open>part_000\<close> on \<^verbatim>\<open>exit_shell\<close> ("Cleans up
  unfinished processes first") and on \<^verbatim>\<open>wait_for_children\<close>, asks that the shell waits for
  every background child before it ends.  \<^verbatim>\<open>exit_shell\<close> only polls with \<^verbatim>\<open>WNOHANG\<close>: after
  \<^verbatim>\<open>sleep 100 &\<close> the built-in \<^verbatim>\<open>exit\<close> ends the shell at once, in both copies, and child 7 is
  left running and uncollected.
\<close>

theorem exit_leaves_running_child:
  "run_shell v [(calm 7, ''sleep 100 &\<newline>''), (calm 8, ''exit\<newline>'')] (initial [])
   = Exited 0
       \<lparr>status = 0, children = [(7, Running)], commands0 = [],
        trace = [Stdout '': '', Forked 7, Stdout (bg_text v @ ''7\<newline>''), Stdout '': '']\<rparr>"
proof -
  have p1: "parse_line ''sleep 100 &\<newline>''
      = Inr \<lparr>commands = [''sleep'', ''100''], fg = False, input_filename = [], output_filename = []\<rparr>"
    by code_simp
  have p2: "parse_line ''exit\<newline>''
      = Inr \<lparr>commands = [''exit''], fg = True, input_filename = [], output_filename = []\<rparr>"
    by code_simp
  have seven: "show_int 7 = ''7''" by code_simp
  have w: "wait_for_children \<lparr>status = 0, children = [(7, Running)], commands0 = c, trace = es\<rparr>
      = \<lparr>status = 0, children = [(7, Running)], commands0 = c, trace = es\<rparr>" for c es
    by (subst wait_for_children_unfold) simp
  show ?thesis
    by (simp add: shell_step_def p1 p2 dispatch_def first_command_def handle_fork_exec_def
          exit_shell_def finish_pass_def elapse_def calm_def initial_def add_events_def
          seven w)
qed

text \<open>
  C6.  The claim asks that a failing \<^verbatim>\<open>fork\<close> ends the shell with a status other than 0,
  and the code sets \<^verbatim>\<open>*status = 1\<close> for that.  But \<^verbatim>\<open>exit_shell\<close> then lets
  \<^verbatim>\<open>wait_for_children\<close> write into the same variable: when the background child 7 has
  exited with code 0 by then, the shell reports the failure and calls \<^verbatim>\<open>exit(0)\<close>.
\<close>

theorem fork_failure_exits_zero:
  "run_shell Smallsh
     [(calm 7, ''sleep 1 &\<newline>''),
      ((calm (- 1))\<lparr>finished := [(7, 0)]\<rparr>, ''ls\<newline>'')]
     (initial [])
   = Exited 0
       \<lparr>status = 0, children = [], commands0 = [],
        trace =
          [Stdout '': '', Forked 7, Stdout ''background process id number 7\<newline>'',
           Stdout '': '', Stderr ''error in fork\<newline>'', Reaped 7 0,
           Stdout ''Background process 7 closed\<newline>'',
           Stdout ''The process exited normally\<newline>'',
           Stdout ''The exit status was 0\<newline>'']\<rparr>
   \<and> exit_code 0 = 0"
  by code_simp

subsection \<open>Foreground commands\<close>

lemma get_status_no_prompt: "Stdout '': '' \<notin> set (map Stdout (get_status w))"
  by (auto simp: get_status_def)

text \<open>
  C7.  Take a line without the token \<^verbatim>\<open>&\<close> whose first word is neither a comment nor a
  built-in, and let \<^verbatim>\<open>fork\<close> return a new pid to the shell.  If that child never ends, the
  pass stays in \<^verbatim>\<open>waitpid\<close> for it and no further prompt is written.  If it ends with
  status \<open>w\<close>, the pass is completed: after the prompt and the \<^verbatim>\<open>fork\<close> comes the wait for
  exactly this pid, nothing written later in the pass is a prompt, and the child is no
  longer among the shell's children when the next pass (and with it the next prompt)
  starts.
\<close>

theorem foreground_wait_before_next_prompt:
  assumes amp: "''&'' \<notin> set (tokenize input)"
    and parse: "parse_line input = Inr p"
    and cmds: "commands p = c # args"
    and ext: "hd c \<noteq> CHR ''#''" "c \<notin> {''cd'', ''status'', ''exit''}"
    and pid: "0 < fork_ret e"
    and fresh: "fork_ret e \<notin> fst ` set (children s)"
  shows "(fg_ends e = None \<longrightarrow>
            (\<exists>s'. shell_step v e input s = Blocked s'
               \<and> trace s' = trace s @ [Stdout '': '', Forked (fork_ret e)]
               \<and> (fork_ret e, Running) \<in> set (children s')))
       \<and> (\<forall>w. fg_ends e = Some w \<longrightarrow>
            (\<exists>s' es. shell_step v e input s = Next s'
               \<and> trace s' = trace s @ [Stdout '': '', Forked (fork_ret e), Waited (fork_ret e) w] @ es
               \<and> Stdout '': '' \<notin> set es
               \<and> fork_ret e \<notin> fst ` set (children s')))"
proof -
  let ?pid = "fork_ret e"
  let ?s1 = "add_events [Stdout '': ''] s"
  let ?s2 = "add_events [Forked ?pid] (?s1\<lparr>children := children ?s1 @ [(?pid, Running)]\<rparr>)"
  from parse cmds have "c \<in> set (tokenize input)"
    using parse_line_commands by fastforce
  then have c: "c \<noteq> []" "c \<noteq> ''\<newline>''"
    by (auto dest!: tokenize_tokens simp: delim_def)
  from parse amp have fg: "fg p" by (rule parse_line_fg)
  have disp: "dispatch v e p ?s1 =
      handle_fork_exec v e True (output_filename p) (input_filename p) (commands p) ?s1"
    using c ext cmds fg by (simp add: dispatch_def first_command_def)
  have look: "map_of (children ?s2) ?pid = Some Running"
  proof -
    have "map_of (children s) ?pid = None"
      using fresh by (simp add: map_of_eq_None_iff)
    then show ?thesis by (simp add: map_add_def)
  qed
  have rem: "remove1 (?pid, Running) (children ?s2) = children s"
    using fresh by (simp add: remove1_fresh)
  have blocked: "shell_step v e input s = Blocked ?s2" if "fg_ends e = None"
    using that pid parse disp look
    by (simp add: shell_step_def finish_pass_def handle_fork_exec_def waitpid_block_def Let_def)
  have "\<exists>s' es. shell_step v e input s = Next s'
               \<and> trace s' = trace s @ [Stdout '': '', Forked ?pid, Waited ?pid w] @ es
               \<and> Stdout '': '' \<notin> set es
               \<and> ?pid \<notin> fst ` set (children s')" if w: "fg_ends e = Some w" for w
  proof -
    let ?s3 = "add_events [Waited ?pid w] (?s2\<lparr>status := w, children := children s\<rparr>)"
    let ?s4 = "case v of Smallsh \<Rightarrow> ?s3 | Part000 \<Rightarrow> add_events (map Stdout (get_status (status ?s3))) ?s3"
    have hfe: "dispatch v e p ?s1 = Next ?s4"
      using w pid look rem unfolding disp
      by (cases v) (simp_all add: handle_fork_exec_def waitpid_block_def Let_def)
    obtain es1 where es1: "trace ?s4 = trace s @ [Stdout '': '', Forked ?pid, Waited ?pid w] @ es1"
      "Stdout '': '' \<notin> set es1" and ch4: "children ?s4 = children s"
      using get_status_no_prompt by (cases v) auto
    obtain es2 where es2: "trace (wait_for_children (elapse e ?s4)) = trace (elapse e ?s4) @ es2"
      "Stdout '': '' \<notin> set es2"
      using wait_for_children_trace by blast
    have "fst ` set (children (wait_for_children (elapse e ?s4))) \<subseteq> fst ` set (children (elapse e ?s4))"
      using wait_for_children_subset by blast
    also have "\<dots> = fst ` set (children s)"
      by (simp add: elapse_def fst_fold_ends ch4)
    finally have "?pid \<notin> fst ` set (children (wait_for_children (elapse e ?s4)))"
      using fresh by blast
    moreover have "shell_step v e input s = Next ((wait_for_children (elapse e ?s4))\<lparr>commands0 := []\<rparr>)"
      using parse hfe by (simp add: shell_step_def finish_pass_def)
    ultimately show ?thesis using es1 es2 by simp
  qed
  with blocked show ?thesis by simp
qed

theorem foreground_wait_before_next_prompt_witness:
  "''&'' \<notin> set (tokenize ''ls\<newline>'')
   \<and> parse_line ''ls\<newline>''
       = Inr \<lparr>commands = [''ls''], fg = True, input_filename = [], output_filename = []\<rparr>
   \<and> (\<exists>s'. shell_step Smallsh ((calm 8)\<lparr>fg_ends := None\<rparr>) ''ls\<newline>'' (initial []) = Blocked s'
          \<and> trace s' = [Stdout '': '', Forked 8] \<and> (8, Running) \<in> set (children s'))
   \<and> (\<exists>s' es. shell_step Smallsh (calm 8) ''ls\<newline>'' (initial []) = Next s'
          \<and> trace s' = [Stdout '': '', Forked 8, Waited 8 0] @ es
          \<and> Stdout '': '' \<notin> set es \<and> 8 \<notin> fst ` set (children s'))"
proof -
  let ?p = "\<lparr>commands = [''ls''], fg = True, input_filename = [], output_filename = []\<rparr>"
  have amp: "''&'' \<notin> set (tokenize ''ls\<newline>'')" by code_simp
  have parse: "parse_line ''ls\<newline>'' = Inr ?p" by code_simp
  have cmds: "commands ?p = ''ls'' # []" by simp
  have ext: "hd ''ls'' \<noteq> CHR ''#''" "''ls'' \<notin> {''cd'', ''status'', ''exit''}" by simp_all
  have pid: "0 < fork_ret (calm 8)" "0 < fork_ret ((calm 8)\<lparr>fg_ends := None\<rparr>)"
    by (simp_all add: calm_def)
  have fresh: "fork_ret (calm 8) \<notin> fst ` set (children (initial []))"
    "fork_ret ((calm 8)\<lparr>fg_ends := None\<rparr>) \<notin> fst ` set (children (initial []))"
    by (simp_all add: initial_def)
  from foreground_wait_before_next_prompt
    [OF amp parse cmds ext pid(2) fresh(2), of Smallsh]
  have "\<exists>s'. shell_step Smallsh ((calm 8)\<lparr>fg_ends := None\<rparr>) ''ls\<newline>'' (initial []) = Blocked s'
          \<and> trace s' = [Stdout '': '', Forked 8] \<and> (8, Running) \<in> set (children s')"
    by (simp add: calm_def initial_def)
  moreover
  from foreground_wait_before_next_prompt
    [OF amp parse cmds ext pid(1) fresh(1), of Smallsh]
  have "\<exists>s' es. shell_step Smallsh (calm 8) ''ls\<newline>'' (initial []) = Next s'
          \<and> trace s' = [Stdout '': '', Forked 8, Waited 8 0] @ es
          \<and> Stdout '': '' \<notin> set es \<and> 8 \<notin> fst ` set (children s')"
    by (simp add: calm_def initial_def)
  ultimately show ?thesis using amp parse by blast
qed

subsection \<open>Blank lines and comments\<close>

lemma blank_or_comment_skipped:
  assumes "parse_line input = Inr p" and "commands0 s = []"
    and "commands p = [] \<or> (\<exists>c args. commands p = c # args \<and> hd c = CHR ''#'')"
  shows "shell_step v e input s = finish_pass e (Next (add_events [Stdout '': ''] s))"
  using assms by (auto simp: shell_step_def dispatch_def first_command_def)

lemma commands0_after_pass: "shell_step v e input s = Next s' \<Longrightarrow> commands0 s' = []"
  by (auto simp: shell_step_def finish_pass_def split: sum.splits result.splits)

lemma parse_comment_trailing_output: "parse_line ''# >\<newline>'' = Inl NullPointer"
  by code_simp

text \<open>
  C8.  The code tests for an empty first string and for a leading \<^verbatim>\<open>#\<close>, as the claim says,
  and skips such lines once the tokenizing loop is through
  (\<open>blank_or_comment_skipped\<close>).  The test comes after the loop, though, and the loop
  treats the words of a comment like those of a command: on the comment \<^verbatim>\<open># >\<close> it hands
  NULL to \<^verbatim>\<open>strcpy\<close> before the line is ever classified.
\<close>

theorem comment_with_trailing_redirect_faults:
  "shell_step v e ''# >\<newline>'' s = Fault NullPointer"
  by (simp add: shell_step_def parse_comment_trailing_output)

subsection \<open>The two copies of the shell\<close>

lemma commented_append [simp]: "commented (es @ fs) = commented es @ commented fs"
  by (simp add: commented_def)

lemma commented_get_status [simp]:
  "commented (map Stdout (get_status w)) = map Stdout (get_status w)"
  by (simp add: commented_def commented_event_def get_status_def capital_def)

lemma commented_report [simp]: "commented (report p w) = report p w"
proof -
  have "report p w = [Reaped p w] @ [Stdout (''Background process '' @ show_int p @ '' closed\<newline>'')]
      @ map Stdout (get_status w)"
    by (simp add: report_def)
  moreover have "commented [Reaped p w] = [Reaped p w]"
    by (simp add: commented_def commented_event_def)
  moreover have "commented [Stdout (''Background process '' @ show_int p @ '' closed\<newline>'')]
      = [Stdout (''Background process '' @ show_int p @ '' closed\<newline>'')]"
    by (simp add: commented_def commented_event_def capital_def)
  ultimately show ?thesis by (simp del: append.simps)
qed

lemma commented_simps [simp]:
  "commented [] = []"
  "commented [Stdout '': ''] = [Stdout '': '']"
  "commented [Stderr x] = [Stderr x]"
  "commented [Forked p] = [Forked p]"
  "commented [Chdir d] = [Chdir d]"
  "commented [Waited p w] = Waited p w # map Stdout (get_status w)"
  by (simp_all add: commented_def commented_event_def capital_def)

lemma commented_bg:
  "commented [Stdout (bg_text Smallsh @ x)] = [Stdout (bg_text Part000 @ x)]"
  by (simp add: commented_def commented_event_def capital_def bg_text_def)

lemma corresponds_add_events:
  "corresponds s t \<Longrightarrow> corresponds (add_events es s) (add_events (commented es) t)"
  by (simp add: corresponds_def)

lemma corresponds_elapse:
  "corresponds s t \<Longrightarrow> corresponds (elapse e s) (elapse e t)"
  by (simp add: corresponds_def elapse_def)

lemma corresponds_wait_for_children:
  "corresponds s t \<Longrightarrow> corresponds (wait_for_children s) (wait_for_children t)"
proof (induction s arbitrary: t rule: wait_for_children_induct)
  case (none s)
  then have "zombie (children t) = None" by (simp add: corresponds_def)
  with none show ?case
    by (subst (1 2) wait_for_children_unfold) simp
next
  case (nonpos s p w)
  then have "zombie (children t) = Some (p, w)" by (simp add: corresponds_def)
  with nonpos show ?case
    by (subst (1 2) wait_for_children_unfold) simp
next
  case (reap s p w)
  then have z: "zombie (children t) = Some (p, w)" by (simp add: corresponds_def)
  let ?s = "add_events (report p w) (s\<lparr>status := w, children := remove1 (p, Zombie w) (children s)\<rparr>)"
  let ?t = "add_events (report p w) (t\<lparr>status := w, children := remove1 (p, Zombie w) (children t)\<rparr>)"
  from reap.prems have "corresponds ?s ?t" by (simp add: corresponds_def)
  then have "corresponds (wait_for_children ?s) (wait_for_children ?t)" by (rule reap.IH)
  moreover have "wait_for_children s = wait_for_children ?s"
    using reap.hyps by (subst wait_for_children_unfold) simp
  moreover have "wait_for_children t = wait_for_children ?t"
    using z reap.hyps by (subst wait_for_children_unfold) simp
  ultimately show ?case by simp
qed

lemma agree_exit_shell:
  "corresponds s t \<Longrightarrow> agree (exit_shell e s) (exit_shell e t)"
proof -
  assume "corresponds s t"
  then have c: "corresponds (wait_for_children (elapse e s)) (wait_for_children (elapse e t))"
    by (intro corresponds_wait_for_children corresponds_elapse)
  then have "status (wait_for_children (elapse e t)) = status (wait_for_children (elapse e s))"
    by (simp add: corresponds_def)
  with c show ?thesis by (simp add: exit_shell_def Let_def)
qed

lemma child_branch_mode:
  "child_branch Part000 e f out_name in_name cmds
   = with_mode (creat_mode Part000) (child_branch Smallsh e f out_name in_name cmds)"
proof -
  have ro: "redirect_output Part000 e out_name =
      (case redirect_output Smallsh e out_name of
         Inl m \<Rightarrow> Inl m
       | Inr dst \<Rightarrow> Inr (map_option (\<lambda>(f, _). (f, creat_mode Part000)) dst))"
    by (simp add: redirect_output_def)
  show ?thesis
  proof (cases "redirect_input e f in_name")
    case (Inl m)
    then show ?thesis by (simp add: child_branch_def with_mode_def)
  next
    case (Inr src)
    show ?thesis
    proof (cases "redirect_output Smallsh e out_name")
      case (Inl m)
      with Inr ro show ?thesis by (simp add: child_branch_def with_mode_def)
    next
      case dst: (Inr dst)
      show ?thesis
      proof (cases cmds)
        case Nil
        with Inr dst ro show ?thesis by (simp add: child_branch_def with_mode_def)
      next
        case (Cons c cs)
        with Inr dst ro show ?thesis by (simp add: child_branch_def with_mode_def)
      qed
    qed
  qed
qed

lemma waitpid_block_corresponds:
  assumes c: "corresponds s t" and some: "map_of (children s) pid \<noteq> None"
  obtains (blocked) "waitpid_block e pid s = None" "waitpid_block e pid t = None"
  | (waited) s' t' w where
      "waitpid_block e pid s = Some (add_events [Waited pid w] s')"
      "waitpid_block e pid t = Some (add_events [Waited pid w] t')"
      "status s' = w" "corresponds s' t'"
proof -
  from c have ch: "children t = children s" by (simp add: corresponds_def)
  from some obtain x where x: "map_of (children s) pid = Some x" by blast
  show thesis
  proof (cases x)
    case Running
    show thesis
    proof (cases "fg_ends e")
      case None
      with x Running ch show thesis by (intro blocked) (simp_all add: waitpid_block_def)
    next
      case (Some w)
      let ?s = "s\<lparr>status := w, children := remove1 (pid, Running) (children s)\<rparr>"
      let ?t = "t\<lparr>status := w, children := remove1 (pid, Running) (children t)\<rparr>"
      have "corresponds ?s ?t" using c by (simp add: corresponds_def)
      moreover have "waitpid_block e pid s = Some (add_events [Waited pid w] ?s)"
        using Some Running x by (simp add: waitpid_block_def)
      moreover have "waitpid_block e pid t = Some (add_events [Waited pid w] ?t)"
        using Some Running x ch by (simp add: waitpid_block_def)
      moreover have "status ?s = w" by simp
      ultimately show thesis using waited by blast
    qed
  next
    case (Zombie w)
    let ?s = "s\<lparr>status := w, children := remove1 (pid, Zombie w) (children s)\<rparr>"
    let ?t = "t\<lparr>status := w, children := remove1 (pid, Zombie w) (children t)\<rparr>"
    have "corresponds ?s ?t" using c by (simp add: corresponds_def)
    moreover have "waitpid_block e pid s = Some (add_events [Waited pid w] ?s)"
      using x Zombie by (simp add: waitpid_block_def)
    moreover have "waitpid_block e pid t = Some (add_events [Waited pid w] ?t)"
      using x Zombie ch by (simp add: waitpid_block_def)
    moreover have "status ?s = w" by simp
    ultimately show thesis using waited by blast
  qed
qed

lemma first_command_corresponds:
  "corresponds s t \<Longrightarrow> first_command p t = first_command p s"
  by (simp add: first_command_def corresponds_def split: list.splits)

lemma agree_handle_fork_exec:
  assumes c: "corresponds s t"
  shows "agree (handle_fork_exec Smallsh e f out_name in_name cmds s)
               (handle_fork_exec Part000 e f out_name in_name cmds t)"
proof -
  let ?pid = "fork_ret e"
  consider "?pid = 0" | "?pid < 0" | "0 < ?pid" by linarith
  then show ?thesis
  proof cases
    case 1
    then show ?thesis by (simp add: handle_fork_exec_def child_branch_mode)
  next
    case 2
    from c have "corresponds (add_events [Stderr ''error in fork\<newline>''] s\<lparr>status := 1\<rparr>)
                    (add_events [Stderr ''error in fork\<newline>''] t\<lparr>status := 1\<rparr>)"
      by (simp add: corresponds_def add_events_def)
    then have "agree (exit_shell e (add_events [Stderr ''error in fork\<newline>''] s\<lparr>status := 1\<rparr>))
                    (exit_shell e (add_events [Stderr ''error in fork\<newline>''] t\<lparr>status := 1\<rparr>))"
      by (rule agree_exit_shell)
    with 2 show ?thesis by (simp add: handle_fork_exec_def)
  next
    case 3
    let ?s1 = "add_events [Forked ?pid] (s\<lparr>children := children s @ [(?pid, Running)]\<rparr>)"
    let ?t1 = "add_events [Forked ?pid] (t\<lparr>children := children t @ [(?pid, Running)]\<rparr>)"
    from c have c1: "corresponds ?s1 ?t1" by (simp add: corresponds_def)
    show ?thesis
    proof (cases f)
      case False
      have "corresponds (add_events [Stdout (bg_text Smallsh @ show_int ?pid @ ''\<newline>'')] ?s1)
              (add_events (commented [Stdout (bg_text Smallsh @ show_int ?pid @ ''\<newline>'')]) ?t1)"
        using c1 by (rule corresponds_add_events)
      then have "corresponds (add_events [Stdout (bg_text Smallsh @ show_int ?pid @ ''\<newline>'')] ?s1)
              (add_events [Stdout (bg_text Part000 @ show_int ?pid @ ''\<newline>'')] ?t1)"
        by (simp only: commented_bg)
      with 3 False show ?thesis by (simp add: handle_fork_exec_def Let_def)
    next
      case True
      have some: "map_of (children ?s1) ?pid \<noteq> None"
        by (simp add: map_add_def split: option.splits)
      from c1 some show ?thesis
      proof (cases rule: waitpid_block_corresponds [where e = e])
        case blocked
        with 3 True c1 show ?thesis by (simp add: handle_fork_exec_def Let_def)
      next
        case 2: (waited s' t' w)
        from 2(4) have "corresponds (add_events [Waited ?pid w] s')
            (add_events (commented [Waited ?pid w]) t')"
          by (rule corresponds_add_events)
        then have "corresponds (add_events [Waited ?pid w] s')
            (add_events (map Stdout (get_status w)) (add_events [Waited ?pid w] t'))"
          by (simp add: corresponds_def)
        moreover from 2(4) have "status t' = w" using 2(3) by (simp add: corresponds_def)
        ultimately show ?thesis using 3 True 2(1,2)
          by (simp add: handle_fork_exec_def Let_def)
      qed
    qed
  qed
qed

lemma agree_change_directory:
  "corresponds s t \<Longrightarrow> agree (change_directory cmds s) (change_directory cmds t)"
  by (auto simp: change_directory_def split: list.splits
        dest: corresponds_add_events [where es = "[Chdir d]" for d])

lemma agree_dispatch:
  assumes c: "corresponds s t"
  shows "agree (dispatch Smallsh e p s) (dispatch Part000 e p t)"
proof -
  have fc: "first_command p t = first_command p s"
    using c by (rule first_command_corresponds)
  have st: "status t = status s" using c by (simp add: corresponds_def)
  have "corresponds (add_events (map Stdout (get_status (status s))) s)
          (add_events (commented (map Stdout (get_status (status s)))) t)"
    using c by (rule corresponds_add_events)
  then have "agree (Next (add_events (map Stdout (get_status (status s))) s))
          (Next (add_events (map Stdout (get_status (status t))) t))"
    by (simp add: st)
  with c agree_change_directory [OF c] agree_exit_shell [OF c] agree_handle_fork_exec [OF c]
  show ?thesis
    unfolding dispatch_def Let_def fc by simp
qed

lemma agree_shell_step:
  assumes c: "corresponds s t"
  shows "agree (shell_step Smallsh e input s) (shell_step Part000 e input t)"
proof (cases "parse_line input")
  case (Inl f)
  then show ?thesis by (simp add: shell_step_def)
next
  case (Inr p)
  let ?s1 = "add_events [Stdout '': ''] s" and ?t1 = "add_events [Stdout '': ''] t"
  have "corresponds ?s1 (add_events (commented [Stdout '': '']) t)"
    using c by (rule corresponds_add_events)
  then have c1: "corresponds ?s1 ?t1" by simp
  have d: "agree (dispatch Smallsh e p ?s1) (dispatch Part000 e p ?t1)"
    using c1 by (rule agree_dispatch)
  have "agree (finish_pass e r) (finish_pass e r')" if "agree r r'" for r r'
  proof (cases r)
    case (Next s2)
    with that obtain t2 where r': "r' = Next t2" and c2: "corresponds s2 t2"
      by (cases r') auto
    from c2 have "corresponds (wait_for_children (elapse e s2)) (wait_for_children (elapse e t2))"
      by (intro corresponds_wait_for_children corresponds_elapse)
    then show ?thesis using Next r' by (simp add: corresponds_def finish_pass_def)
  qed (use that in \<open>cases r'; simp add: finish_pass_def\<close>)+
  from this [OF d] Inr show ?thesis by (simp add: shell_step_def)
qed

text \<open>
  C10, as the claim states it, fails on the line \<^verbatim>\<open>ls > out\<close> and on its background form:
  after the foreground wait \<^verbatim>\<open>part_000\<close> prints a status report and \<^verbatim>\<open>smallsh.c\<close> prints
  nothing; the child creates \<^verbatim>\<open>out\<close> with mode 0744 (484) in \<^verbatim>\<open>smallsh.c\<close> and with mode
  0644 (420) in \<^verbatim>\<open>part_000\<close>; the background pid is announced with a small and with a
  capital letter.
\<close>

theorem copies_differ_counterexample:
  "shell_step Smallsh (calm 8) ''ls > out\<newline>'' (initial [])
     = Next \<lparr>status = 0, children = [], commands0 = [],
             trace = [Stdout '': '', Forked 8, Waited 8 0]\<rparr>
   \<and> shell_step Part000 (calm 8) ''ls > out\<newline>'' (initial [])
     = Next \<lparr>status = 0, children = [], commands0 = [],
             trace = [Stdout '': '', Forked 8, Waited 8 0,
                      Stdout ''The process exited normally\<newline>'',
                      Stdout ''The exit status was 0\<newline>'']\<rparr>
   \<and> shell_step Smallsh (calm 0) ''ls > out\<newline>'' (initial [])
     = InChild (Exec \<lparr>argv = [''ls''], stdin_from = None, stdout_to = Some (''out'', 484),
                      sigint = SIG_DFL\<rparr>)
   \<and> shell_step Part000 (calm 0) ''ls > out\<newline>'' (initial [])
     = InChild (Exec \<lparr>argv = [''ls''], stdin_from = None, stdout_to = Some (''out'', 420),
                      sigint = SIG_DFL\<rparr>)
   \<and> shell_step Smallsh (calm 8) ''ls > out &\<newline>'' (initial [])
     = Next \<lparr>status = 0, children = [(8, Running)], commands0 = [],
             trace = [Stdout '': '', Forked 8,
                      Stdout ''background process id number 8\<newline>'']\<rparr>
   \<and> shell_step Part000 (calm 8) ''ls > out &\<newline>'' (initial [])
     = Next \<lparr>status = 0, children = [(8, Running)], commands0 = [],
             trace = [Stdout '': '', Forked 8,
                      Stdout ''Background process id number 8\<newline>'']\<rparr>"
  by code_simp

text \<open>
  C10, amended.  Started in corresponding states and given the same lines and the same
  surroundings, the two copies end the same way, and all along they hold the same
  \<^verbatim>\<open>status\<close> and the same children and make the same calls of \<^verbatim>\<open>fork\<close>, \<^verbatim>\<open>waitpid\<close> and
  \<^verbatim>\<open>chdir\<close>; the child of \<^verbatim>\<open>part_000\<close> is the child of \<^verbatim>\<open>smallsh.c\<close> with the mode of a
  created output file replaced by 0644.  What \<^verbatim>\<open>part_000\<close> writes is what \<^verbatim>\<open>smallsh.c\<close>
  writes with a status report added after every foreground wait and with the capital
  letter in the line announcing a background pid.
\<close>

theorem copies_correspond:
  "corresponds s t \<Longrightarrow> agree (run_shell Smallsh lines s) (run_shell Part000 lines t)"
proof (induction lines arbitrary: s t)
  case Nil
  then have "corresponds (add_events [Stdout '': ''] s) (add_events (commented [Stdout '': '']) t)"
    by (rule corresponds_add_events)
  then show ?case by simp
next
  case (Cons l lines)
  obtain e input where l: "l = (e, input)" by (cases l)
  have a: "agree (shell_step Smallsh e input s) (shell_step Part000 e input t)"
    using Cons.prems by (rule agree_shell_step)
  show ?case
  proof (cases "shell_step Smallsh e input s")
    case (Next s')
    with a obtain t' where t': "shell_step Part000 e input t = Next t'" and "corresponds s' t'"
      by (cases "shell_step Part000 e input t") auto
    then have "agree (run_shell Smallsh lines s') (run_shell Part000 lines t')"
      using Cons.IH by blast
    with Next t' l show ?thesis by simp
  qed (use a l in \<open>cases "shell_step Part000 e input t"; simp\<close>)+
qed

theorem copies_correspond_witness:
  "corresponds (initial []) (initial [])
   \<and> agree (run_shell Smallsh [(calm 8, ''ls > out\<newline>''), (calm 9, ''sleep 1 &\<newline>'')] (initial []))
           (run_shell Part000 [(calm 8, ''ls > out\<newline>''), (calm 9, ''sleep 1 &\<newline>'')] (initial []))"
proof -
  have c: "corresponds (initial []) (initial [])"
    by (simp add: corresponds_def initial_def)
  from copies_correspond [OF c] c show ?thesis by blast
qed

end
